theory Spec2Isabelle
  imports Main "HOL-Library.Sublist"
begin

section \<open>Strings and numbers of the source language\<close>

text \<open>
  A TypeScript string is a sequence of UTF-16 code units; a code unit is modelled as a
  natural number. Literals of the source are written as HOL strings and converted by
  \<open>js\<close>. The numbers held in the settings come from \<open>parseInt\<close> in the views, so they
  are modelled as integers, interpolated into a template in decimal notation. That is how
  the source prints an integer of magnitude below \<open>10^21\<close>, which covers every value of
  the sliders and of the documented ranges; from \<open>10^21\<close> on the source prints the
  exponent form of the double, which \<open>show_int\<close> does not model.
\<close>

type_synonym jsstring = "nat list"

definition js :: "string \<Rightarrow> jsstring" where
  "js s = map of_char s"

definition nl :: jsstring where
  "nl = [10]"

definition dq :: jsstring where
  "dq = [34]"

fun show_nat :: "nat \<Rightarrow> jsstring" where
  "show_nat n = (if n < 10 then [48 + n] else show_nat (n div 10) @ [48 + n mod 10])"

definition show_int :: "int \<Rightarrow> jsstring" where
  "show_int i = (if i < 0 then js ''-'' @ show_nat (nat (- i)) else show_nat (nat i))"

text \<open>
  \<open>String.prototype.trim\<close> strips the code units that ECMAScript calls WhiteSpace or
  LineTerminator from both ends: TAB, LF, VT, FF, CR, SP, NBSP, U+1680, U+2000 to U+200A,
  U+2028, U+2029, U+202F, U+205F, U+3000 and U+FEFF.
\<close>

definition is_whitespace :: "nat \<Rightarrow> bool" where
  "is_whitespace c \<longleftrightarrow>
     c = 9 \<or> c = 10 \<or> c = 11 \<or> c = 12 \<or> c = 13 \<or> c = 32 \<or> c = 160 \<or> c = 5760 \<or>
     (8192 \<le> c \<and> c \<le> 8202) \<or> c = 8232 \<or> c = 8233 \<or> c = 8239 \<or> c = 8287 \<or>
     c = 12288 \<or> c = 65279"

definition trim :: "jsstring \<Rightarrow> jsstring" where
  "trim s = rev (dropWhile is_whitespace (rev (dropWhile is_whitespace s)))"

text \<open>\<open>Array.prototype.join\<close> on an array of strings.\<close>

fun join :: "jsstring \<Rightarrow> jsstring list \<Rightarrow> jsstring" where
  "join sep [] = []"
| "join sep [x] = x"
| "join sep (x # y # ys) = x @ sep @ join sep (y # ys)"

text \<open>
  A value of type \<open>string | null\<close> (or a possibly undefined string) is an option; in a
  condition it counts as true when it is present and not the empty string.
\<close>

definition truthy :: "jsstring option \<Rightarrow> bool" where
  "truthy v = (case v of None \<Rightarrow> False | Some s \<Rightarrow> s \<noteq> [])"

text \<open>An undefined value interpolated into a template literal prints as \<open>undefined\<close>.\<close>

definition interpolate :: "jsstring option \<Rightarrow> jsstring" where
  "interpolate v = (case v of None \<Rightarrow> js ''undefined'' | Some s \<Rightarrow> s)"

section \<open>The edit settings (geminiService)\<close>

record ResizeConfig =
  resize_enabled :: bool
  resize_width :: int
  resize_height :: int
  maintainAspectRatio :: bool

record CropConfig =
  crop_enabled :: bool
  crop_x :: int
  crop_y :: int
  crop_width :: int
  crop_height :: int

record TextOverlayConfig =
  overlay_enabled :: bool
  overlay_content :: jsstring
  overlay_font :: jsstring
  overlay_size :: int
  overlay_color :: jsstring
  positionX :: int
  positionY :: int

record GrayscaleConfig =
  grayscale_enabled :: bool
  grayscale_intensity :: int

record FilterConfig =
  grayscale :: GrayscaleConfig
  brightness :: int
  contrast :: int

datatype TransparencyMethod = fill | dither | preserve

record TransparencyConfig =
  transparency_method :: TransparencyMethod
  fillColor :: jsstring

datatype WatermarkPosition =
  top_left | top_center | top_right | middle_left | center | middle_right
  | bottom_left | bottom_center | bottom_right

record WatermarkConfig =
  watermark_enabled :: bool
  watermark_text :: jsstring
  watermark_opacity :: int
  watermark_scale :: int
  watermark_color :: jsstring
  watermark_position :: WatermarkPosition

datatype OutputFormat = image_png | image_jpeg | image_webp

fun mime :: "OutputFormat \<Rightarrow> jsstring" where
  "mime image_png = js ''image/png''"
| "mime image_jpeg = js ''image/jpeg''"
| "mime image_webp = js ''image/webp''"

fun positionDescriptions :: "WatermarkPosition \<Rightarrow> jsstring" where
  "positionDescriptions top_left = js ''in the top-left corner''"
| "positionDescriptions top_center = js ''centered horizontally at the top''"
| "positionDescriptions top_right = js ''in the top-right corner''"
| "positionDescriptions middle_left = js ''centered vertically on the left edge''"
| "positionDescriptions center = js ''in the absolute center''"
| "positionDescriptions middle_right = js ''centered vertically on the right edge''"
| "positionDescriptions bottom_left = js ''in the bottom-left corner''"
| "positionDescriptions bottom_center = js ''centered horizontally at the bottom''"
| "positionDescriptions bottom_right = js ''in the bottom-right corner''"

section \<open>The instruction compiler: the prompt built by editImageWithGemini\<close>

text \<open>
  The source appends one block of text to \<open>finalPrompt\<close> per stage. The model keeps the
  blocks apart, each labelled with the stage that appended it, in the order of the
  appends; \<open>finalPrompt\<close> is their concatenation.
\<close>

datatype stage =
  UserRequest | Rotation | Crop | Filters | TransparencyHandling | Watermark | Resize
  | TextOverlay | OutputEncoding

datatype filter_kind = GrayscaleFilter | BrightnessFilter | ContrastFilter

definition userRequestText :: "jsstring \<Rightarrow> jsstring" where
  "userRequestText userPrompt =
     js ''Apply the following edits to the image.'' @ js '' The user's primary request is: ''
     @ dq @ userPrompt @ dq @ js ''.''"

definition rotationText :: "int \<Rightarrow> jsstring" where
  "rotationText rotationAngle =
     nl @ nl @ js ''--- ROTATION INSTRUCTIONS ---'' @ nl @ js ''First, rotate the image by ''
     @ show_int rotationAngle
     @ js '' degrees clockwise. All subsequent instructions should apply to the rotated image.''"

definition cropText :: "CropConfig \<Rightarrow> jsstring" where
  "cropText cropConfig =
     nl @ nl @ js ''--- CROP INSTRUCTIONS ---'' @ nl
     @ js ''After any rotation, crop the image. The crop region is defined by the following percentages of the image dimensions:''
     @ nl @ js ''- Start X (from left): '' @ show_int (crop_x cropConfig) @ js ''%''
     @ nl @ js ''- Start Y (from top): '' @ show_int (crop_y cropConfig) @ js ''%''
     @ nl @ js ''- Crop Width: '' @ show_int (crop_width cropConfig) @ js ''%''
     @ nl @ js ''- Crop Height: '' @ show_int (crop_height cropConfig) @ js ''%''
     @ nl @ js ''All subsequent instructions should be applied to this newly cropped image area.''"

definition grayscaleText :: "int \<Rightarrow> jsstring" where
  "grayscaleText intensity =
     js ''apply a grayscale filter with an intensity of '' @ show_int intensity
     @ js ''%. A value of 100% results in a fully black and white image, while a lower value partially desaturates the image''"

definition brightnessText :: "int \<Rightarrow> jsstring" where
  "brightnessText b = js ''adjust the brightness to '' @ show_int b @ js ''% of the original''"

definition contrastText :: "int \<Rightarrow> jsstring" where
  "contrastText c = js ''adjust the contrast to '' @ show_int c @ js ''% of the original''"

text \<open>The array \<open>filterInstructions\<close>, each entry labelled with the filter that pushed it.\<close>

definition filterInstructions :: "FilterConfig \<Rightarrow> (filter_kind \<times> jsstring) list" where
  "filterInstructions filterConfig =
     (if grayscale_enabled (grayscale filterConfig)
      then [(GrayscaleFilter, grayscaleText (grayscale_intensity (grayscale filterConfig)))]
      else [])
     @ (if brightness filterConfig \<noteq> 100
        then [(BrightnessFilter, brightnessText (brightness filterConfig))] else [])
     @ (if contrast filterConfig \<noteq> 100
        then [(ContrastFilter, contrastText (contrast filterConfig))] else [])"

definition filterText :: "jsstring list \<Rightarrow> jsstring" where
  "filterText instructions =
     nl @ nl @ js ''--- FILTER INSTRUCTIONS ---'' @ nl
     @ js ''After cropping, but before resizing or adding text, apply these adjustments: ''
     @ join (js ''; '') instructions @ js ''.''"

definition transparencyText :: "TransparencyConfig \<Rightarrow> jsstring" where
  "transparencyText transparencyConfig =
     (if transparency_method transparencyConfig = fill then
        nl @ nl @ js ''--- TRANSPARENCY HANDLING ---'' @ nl
        @ js ''If the original image contains transparent areas (alpha channel), fill these areas completely with the solid color ''
        @ fillColor transparencyConfig
        @ js ''. This background color should be applied before any other elements like text overlays.''
      else if transparency_method transparencyConfig = dither then
        nl @ nl @ js ''--- TRANSPARENCY HANDLING ---'' @ nl
        @ js ''If the original image contains transparent areas, create a smooth, dithered transition to an opaque background. Avoid a solid color fill; instead, use a subtle pattern or blend to handle the transparency gracefully.''
      else
        nl @ nl @ js ''--- TRANSPARENCY HANDLING ---'' @ nl
        @ js ''Preserve any transparency (alpha channel) from the original image in the final output. The background must remain transparent.'')"

definition watermarkText :: "WatermarkConfig \<Rightarrow> jsstring" where
  "watermarkText watermarkConfig =
     nl @ nl @ js ''--- WATERMARK INSTRUCTIONS ---'' @ nl
     @ js ''Add a text watermark with the following properties. This should be applied before resizing and before the main text overlay.''
     @ nl @ js ''- CONTENT: '' @ dq @ trim (watermark_text watermarkConfig) @ dq
     @ nl @ js ''- COLOR: Use the color '' @ watermark_color watermarkConfig @ js ''.''
     @ nl @ js ''- FONT: Use a clean, sans-serif font.''
     @ nl @ js ''- SIZE: The watermark's width should be approximately ''
     @ show_int (watermark_scale watermarkConfig) @ js ''% of the image's total width.''
     @ nl @ js ''- OPACITY: The watermark should have an opacity of ''
     @ show_int (watermark_opacity watermarkConfig) @ js ''%.''
     @ nl @ js ''- POSITION: Place the watermark ''
     @ positionDescriptions (watermark_position watermarkConfig)
     @ js ''. The watermark should be subtly blended and not obscure the main subject.''"

definition resizeText :: "ResizeConfig \<Rightarrow> jsstring" where
  "resizeText resizeConfig =
     (if maintainAspectRatio resizeConfig then
        nl @ nl @ js ''--- RESIZE INSTRUCTIONS ---'' @ nl
        @ js ''After all other edits, resize the resulting image to fit within a ''
        @ show_int (resize_width resizeConfig) @ js ''x'' @ show_int (resize_height resizeConfig)
        @ js '' bounding box. Maintain the aspect ratio of the edited image. Do not stretch, distort, or perform additional cropping to fit; instead, scale it down proportionally. The final image's largest dimension must not exceed the corresponding dimension of the bounding box.''
      else
        nl @ nl @ js ''--- RESIZE INSTRUCTIONS ---'' @ nl
        @ js ''After all other edits, resize the resulting image to the exact dimensions of ''
        @ show_int (resize_width resizeConfig) @ js ''px width and ''
        @ show_int (resize_height resizeConfig)
        @ js ''px height. Stretch or squash the image as necessary to meet these exact dimensions.'')"

definition textOverlayText :: "TextOverlayConfig \<Rightarrow> jsstring" where
  "textOverlayText textOverlayConfig =
     nl @ nl @ js ''--- TEXT OVERLAY INSTRUCTIONS ---'' @ nl
     @ js ''As the final step, after all other transformations, add text to the image with these exact properties:''
     @ nl @ js ''- CONTENT: '' @ dq @ trim (overlay_content textOverlayConfig) @ dq
     @ nl @ js ''- COLOR: Use the color '' @ overlay_color textOverlayConfig @ js ''.''
     @ nl @ js ''- FONT: Use a font that looks like '' @ overlay_font textOverlayConfig @ js ''.''
     @ nl @ js ''- SIZE: Make the font size proportional to ''
     @ show_int (overlay_size textOverlayConfig) @ js '' on a 1024px image.''
     @ nl @ js ''- POSITION: Center the text at '' @ show_int (positionX textOverlayConfig)
     @ js ''% from the left and '' @ show_int (positionY textOverlayConfig)
     @ js ''% from the top. Do not add any background or bounding box to the text.''"

definition outputText :: "OutputFormat \<Rightarrow> int \<Rightarrow> jsstring" where
  "outputText outputFormat outputQuality =
     (if outputFormat = image_jpeg \<or> outputFormat = image_webp then
        nl @ nl @ js ''--- OUTPUT FORMAT ---'' @ nl @ js ''Encode the final image as ''
        @ mime outputFormat @ js '' with a quality setting of approximately ''
        @ show_int outputQuality @ js ''/100.''
      else
        nl @ nl @ js ''--- OUTPUT FORMAT ---'' @ nl @ js ''Encode the final image as lossless ''
        @ mime outputFormat @ js ''.'')"

text \<open>
  The blocks appended to \<open>finalPrompt\<close> by editImageWithGemini, in the order of the
  source. A trimmed text is tested for truth, that is, for being non-empty.
\<close>

definition promptBlocks ::
  "jsstring \<Rightarrow> OutputFormat \<Rightarrow> int \<Rightarrow> ResizeConfig \<Rightarrow> CropConfig \<Rightarrow> int \<Rightarrow> TextOverlayConfig
   \<Rightarrow> FilterConfig \<Rightarrow> TransparencyConfig \<Rightarrow> WatermarkConfig \<Rightarrow> (stage \<times> jsstring) list" where
  "promptBlocks userPrompt outputFormat outputQuality resizeConfig cropConfig rotationAngle
     textOverlayConfig filterConfig transparencyConfig watermarkConfig =
     [(UserRequest, userRequestText userPrompt)]
     @ (if rotationAngle \<noteq> 0 then [(Rotation, rotationText rotationAngle)] else [])
     @ (if crop_enabled cropConfig then [(Crop, cropText cropConfig)] else [])
     @ (if length (filterInstructions filterConfig) > 0
        then [(Filters, filterText (map snd (filterInstructions filterConfig)))] else [])
     @ [(TransparencyHandling, transparencyText transparencyConfig)]
     @ (if watermark_enabled watermarkConfig \<and> trim (watermark_text watermarkConfig) \<noteq> []
        then [(Watermark, watermarkText watermarkConfig)] else [])
     @ (if resize_enabled resizeConfig then [(Resize, resizeText resizeConfig)] else [])
     @ (if overlay_enabled textOverlayConfig \<and> trim (overlay_content textOverlayConfig) \<noteq> []
        then [(TextOverlay, textOverlayText textOverlayConfig)] else [])
     @ [(OutputEncoding, outputText outputFormat outputQuality)]"

definition finalPrompt ::
  "jsstring \<Rightarrow> OutputFormat \<Rightarrow> int \<Rightarrow> ResizeConfig \<Rightarrow> CropConfig \<Rightarrow> int \<Rightarrow> TextOverlayConfig
   \<Rightarrow> FilterConfig \<Rightarrow> TransparencyConfig \<Rightarrow> WatermarkConfig \<Rightarrow> jsstring" where
  "finalPrompt userPrompt outputFormat outputQuality resizeConfig cropConfig rotationAngle
     textOverlayConfig filterConfig transparencyConfig watermarkConfig =
     concat (map snd (promptBlocks userPrompt outputFormat outputQuality resizeConfig cropConfig
       rotationAngle textOverlayConfig filterConfig transparencyConfig watermarkConfig))"

text \<open>The stages of the compiled sequence, in the order in which they were appended.\<close>

definition stages ::
  "jsstring \<Rightarrow> OutputFormat \<Rightarrow> int \<Rightarrow> ResizeConfig \<Rightarrow> CropConfig \<Rightarrow> int \<Rightarrow> TextOverlayConfig
   \<Rightarrow> FilterConfig \<Rightarrow> TransparencyConfig \<Rightarrow> WatermarkConfig \<Rightarrow> stage list" where
  "stages userPrompt outputFormat outputQuality resizeConfig cropConfig rotationAngle
     textOverlayConfig filterConfig transparencyConfig watermarkConfig =
     map fst (promptBlocks userPrompt outputFormat outputQuality resizeConfig cropConfig
       rotationAngle textOverlayConfig filterConfig transparencyConfig watermarkConfig)"

text \<open>The order of stages that the design fixes, after the user's request.\<close>

definition stageOrder :: "stage list" where
  "stageOrder =
     [UserRequest, Rotation, Crop, Filters, TransparencyHandling, Watermark, Resize,
      TextOverlay, OutputEncoding]"

text \<open>The line that opens the block of each stage in the text of the prompt.\<close>

fun stageHeader :: "stage \<Rightarrow> jsstring" where
  "stageHeader UserRequest = js ''Apply the following edits to the image.''"
| "stageHeader Rotation = nl @ nl @ js ''--- ROTATION INSTRUCTIONS ---'' @ nl"
| "stageHeader Crop = nl @ nl @ js ''--- CROP INSTRUCTIONS ---'' @ nl"
| "stageHeader Filters = nl @ nl @ js ''--- FILTER INSTRUCTIONS ---'' @ nl"
| "stageHeader TransparencyHandling = nl @ nl @ js ''--- TRANSPARENCY HANDLING ---'' @ nl"
| "stageHeader Watermark = nl @ nl @ js ''--- WATERMARK INSTRUCTIONS ---'' @ nl"
| "stageHeader Resize = nl @ nl @ js ''--- RESIZE INSTRUCTIONS ---'' @ nl"
| "stageHeader TextOverlay = nl @ nl @ js ''--- TEXT OVERLAY INSTRUCTIONS ---'' @ nl"
| "stageHeader OutputEncoding = nl @ nl @ js ''--- OUTPUT FORMAT ---'' @ nl"

section \<open>The Transform Capability: the call to the image model and its response\<close>

text \<open>
  A value that the source can throw or reject with: an \<open>Error\<close> with its message (which
  may be missing), a \<open>TypeError\<close> raised by the engine on reading a property of
  \<open>undefined\<close> or on iterating over it, and the \<open>ProgressEvent\<close> that a failed
  \<open>FileReader\<close> rejects with, which has no message. These are the objects that the
  service client and the browser reject with; a rejection with \<open>null\<close> or
  \<open>undefined\<close>, on which reading \<open>err.message\<close> would itself throw, is not modelled.
\<close>

datatype thrown = Error "jsstring option" | TypeError jsstring | ProgressEvent

fun message :: "thrown \<Rightarrow> jsstring option" where
  "message (Error m) = m"
| "message (TypeError m) = Some m"
| "message ProgressEvent = None"

text \<open>
  The response of \<open>generateContent\<close>. The source reads
  \<open>response.candidates[0].content.parts\<close> and, of each part, \<open>inlineData\<close> and its
  \<open>data\<close>; every one of them may be absent in a response.
\<close>

record Blob =
  blob_data :: "jsstring option"
  blob_mimeType :: "jsstring option"

record Part =
  inlineData :: "Blob option"
  part_text :: "jsstring option"

record Content =
  parts :: "Part list option"

record Candidate =
  content :: "Content option"

record GenerateContentResponse =
  candidates :: "Candidate list option"

record Request =
  request_data :: "jsstring option"
  request_mimeType :: jsstring
  request_text :: jsstring

text \<open>
  One call of the service: it rejects, or it resolves to a response. The service is not a
  function of the request alone, so a run is given one such answer per call, numbered in
  the order of the calls.
\<close>

type_synonym generateContent = "Request \<Rightarrow> thrown + GenerateContentResponse"

type_synonym service = "nat \<Rightarrow> generateContent"

text \<open>
  The expression \<open>response.candidates[0].content.parts\<close>, as the subject of the
  \<open>for ... of\<close> loop. The messages of the type errors are the ones V8 prints.
\<close>

definition responseParts :: "GenerateContentResponse \<Rightarrow> thrown + Part list" where
  "responseParts response =
     (case candidates response of
        None \<Rightarrow> Inl (TypeError (js ''Cannot read properties of undefined (reading '0')''))
      | Some cs \<Rightarrow>
          (case cs of
             [] \<Rightarrow> Inl (TypeError (js ''Cannot read properties of undefined (reading 'content')''))
           | c # _ \<Rightarrow>
               (case content c of
                  None \<Rightarrow>
                    Inl (TypeError (js ''Cannot read properties of undefined (reading 'parts')''))
                | Some ct \<Rightarrow>
                    (case parts ct of
                       None \<Rightarrow>
                         Inl (TypeError
                           (js ''response.candidates[0].content.parts is not iterable''))
                     | Some ps \<Rightarrow> Inr ps))))"

text \<open>
  The loop over the parts that ends editImageWithGemini and compressImageWithGemini: the
  first part with \<open>inlineData\<close> is returned as a data URL; after the loop the source throws.
\<close>

fun firstInlineData :: "OutputFormat \<Rightarrow> Part list \<Rightarrow> thrown + jsstring" where
  "firstInlineData outputFormat [] = Inl (Error (Some (js ''No image was generated.'')))"
| "firstInlineData outputFormat (part # rest) =
     (case inlineData part of
        Some blob \<Rightarrow>
          Inr (js ''data:'' @ mime outputFormat @ js '';base64,'' @ interpolate (blob_data blob))
      | None \<Rightarrow> firstInlineData outputFormat rest)"

definition editImageWithGemini ::
  "generateContent \<Rightarrow> jsstring option \<Rightarrow> jsstring \<Rightarrow> jsstring \<Rightarrow> OutputFormat \<Rightarrow> int
   \<Rightarrow> ResizeConfig \<Rightarrow> CropConfig \<Rightarrow> int \<Rightarrow> TextOverlayConfig \<Rightarrow> FilterConfig
   \<Rightarrow> TransparencyConfig \<Rightarrow> WatermarkConfig \<Rightarrow> thrown + jsstring" where
  "editImageWithGemini generate base64ImageData mimeType userPrompt outputFormat outputQuality
     resizeConfig cropConfig rotationAngle textOverlayConfig filterConfig transparencyConfig
     watermarkConfig =
     (case generate
         \<lparr>request_data = base64ImageData, request_mimeType = mimeType,
          request_text = finalPrompt userPrompt outputFormat outputQuality resizeConfig
            cropConfig rotationAngle textOverlayConfig filterConfig transparencyConfig
            watermarkConfig\<rparr> of
        Inl e \<Rightarrow> Inl e
      | Inr response \<Rightarrow>
          (case responseParts response of
             Inl e \<Rightarrow> Inl e
           | Inr ps \<Rightarrow> firstInlineData outputFormat ps))"

subsection \<open>compressImageWithGemini\<close>

text \<open>\<open>String.prototype.split\<close> with a separator of one code unit, and reading an array
  at an index, which gives \<open>undefined\<close> out of range.\<close>

fun split :: "nat \<Rightarrow> jsstring \<Rightarrow> jsstring list" where
  "split sep [] = [[]]"
| "split sep (c # cs) =
     (if c = sep then [] # split sep cs
      else (case split sep cs of [] \<Rightarrow> [[c]] | p # ps \<Rightarrow> (c # p) # ps))"

fun at_index :: "'a list \<Rightarrow> nat \<Rightarrow> 'a option" where
  "at_index [] n = None"
| "at_index (x # xs) 0 = Some x"
| "at_index (x # xs) (Suc n) = at_index xs n"

definition getQualityDescription :: "int \<Rightarrow> jsstring" where
  "getQualityDescription q =
     (if q \<le> 20 then js ''extremely aggressive visual compression, resulting in a very abstract image with minimal detail''
      else if q \<le> 40 then js ''heavy visual compression, creating a stylized version with significantly reduced detail''
      else if q \<le> 60 then js ''moderate visual compression, aiming for a balanced simplification of details and complexity''
      else if q \<le> 80 then js ''light visual compression, with a subtle reduction in detail while retaining most of the original's character''
      else js ''very light visual compression, with minimal simplification, retaining almost all original details'')"

definition getDetailLevelDescription :: "int \<Rightarrow> jsstring" where
  "getDetailLevelDescription d =
     (if d \<le> 20 then js ''minimal detail, focusing only on the main shapes and colors''
      else if d \<le> 40 then js ''low detail, abstracting smaller elements''
      else if d \<le> 60 then js ''moderate detail, retaining key textures and features''
      else if d \<le> 80 then js ''high detail, keeping most of the fine elements intact''
      else js ''original detail, aiming to preserve all visual information'')"

definition getResolutionDescription :: "jsstring \<Rightarrow> jsstring" where
  "getResolutionDescription resolution =
     (if resolution = js ''original'' then []
      else
        js '' Additionally, resize the image to fit within a ''
        @ interpolate (at_index (split 120 resolution) 0) @ js ''x''
        @ interpolate (at_index (split 120 resolution) 1)
        @ js '' bounding box, maintaining the original aspect ratio. Do not stretch, distort, or crop the image; instead, scale it down proportionally to fit inside these dimensions. The final image's largest dimension should not exceed the corresponding dimension of the bounding box.'')"

definition compressPrompt :: "int \<Rightarrow> int \<Rightarrow> jsstring \<Rightarrow> jsstring" where
  "compressPrompt quality detailLevel resolution =
     js ''Visually compress this image. The goal is to achieve ''
     @ getQualityDescription quality @ js ''. The desired level of detail is ''
     @ getDetailLevelDescription detailLevel @ js ''.'' @ getResolutionDescription resolution
     @ js '' The output should be a visually simplified, stylized, or abstract version of the original. Do not add any new elements or change the core subject matter. Just reduce visual complexity based on these instructions.''"

definition compressImageWithGemini ::
  "generateContent \<Rightarrow> jsstring option \<Rightarrow> jsstring \<Rightarrow> OutputFormat \<Rightarrow> int \<Rightarrow> int \<Rightarrow> jsstring
   \<Rightarrow> thrown + jsstring" where
  "compressImageWithGemini generate base64ImageData mimeType outputFormat quality detailLevel
     resolution =
     (case generate
         \<lparr>request_data = base64ImageData, request_mimeType = mimeType,
          request_text = compressPrompt quality detailLevel resolution\<rparr> of
        Inl e \<Rightarrow> Inl e
      | Inr response \<Rightarrow>
          (case responseParts response of
             Inl e \<Rightarrow> Inl e
           | Inr ps \<Rightarrow> firstInlineData outputFormat ps))"

text \<open>The message stored for a failed item: \<open>err.message || 'An unexpected error occurred.'\<close>\<close>

definition errorMessage :: "thrown \<Rightarrow> jsstring" where
  "errorMessage err =
     (if truthy (message err) then interpolate (message err)
      else js ''An unexpected error occurred.'')"

section \<open>EditorView: the batch and the run over the selection\<close>

definition dataUrlToBase64 :: "jsstring \<Rightarrow> jsstring option" where
  "dataUrlToBase64 dataUrl = at_index (split 44 dataUrl) 1"

record ImageState =
  image_id :: jsstring
  originalDataUrl :: jsstring
  originalFileName :: jsstring
  originalFileType :: jsstring
  editedUrl :: "jsstring option"
  isLoading :: bool
  error :: "jsstring option"

record Progress =
  current :: nat
  total :: nat

record Settings =
  userPrompt :: jsstring
  outputFormat :: OutputFormat
  outputQuality :: int
  resizeConfig :: ResizeConfig
  cropConfig :: CropConfig
  rotationAngle :: int
  textOverlayConfig :: TextOverlayConfig
  filterConfig :: FilterConfig
  transparencyConfig :: TransparencyConfig
  watermarkConfig :: WatermarkConfig

definition defaultSettings :: Settings where
  "defaultSettings =
     \<lparr>userPrompt = js ''Make this image look more professional and vibrant.'',
      outputFormat = image_png,
      outputQuality = 92,
      resizeConfig = \<lparr>resize_enabled = False, resize_width = 1024, resize_height = 1024,
        maintainAspectRatio = True\<rparr>,
      cropConfig = \<lparr>crop_enabled = False, crop_x = 10, crop_y = 10, crop_width = 80,
        crop_height = 80\<rparr>,
      rotationAngle = 0,
      textOverlayConfig = \<lparr>overlay_enabled = False, overlay_content = js ''Your Text Here'',
        overlay_font = js ''Arial, sans-serif'', overlay_size = 48, overlay_color = js ''#FFFFFF'',
        positionX = 50, positionY = 50\<rparr>,
      filterConfig = \<lparr>grayscale = \<lparr>grayscale_enabled = False, grayscale_intensity = 100\<rparr>,
        brightness = 100, contrast = 100\<rparr>,
      transparencyConfig = \<lparr>transparency_method = preserve, fillColor = js ''#FFFFFF''\<rparr>,
      watermarkConfig = \<lparr>watermark_enabled = False, watermark_text = js ''Watermark'',
        watermark_opacity = 50, watermark_scale = 25, watermark_color = js ''#FFFFFF'',
        watermark_position = bottom_right\<rparr>\<rparr>"

text \<open>The component state that handleGenerateEdits reads and sets.\<close>

record EditorState =
  images :: "ImageState list"
  isProcessing :: bool
  progress :: Progress
  selectedImageIds :: "jsstring set"
  settings :: Settings

text \<open>The body of the \<open>try\<close> block for the image \<open>im\<close>, the \<open>i\<close>-th of the run.\<close>

definition editAttempt :: "service \<Rightarrow> Settings \<Rightarrow> nat \<Rightarrow> ImageState \<Rightarrow> thrown + jsstring" where
  "editAttempt svc s i im =
     editImageWithGemini (svc i) (dataUrlToBase64 (originalDataUrl im))
       (originalFileType im) (userPrompt s) (outputFormat s) (outputQuality s)
       (resizeConfig s) (cropConfig s) (rotationAngle s) (textOverlayConfig s)
       (filterConfig s) (transparencyConfig s) (watermarkConfig s)"

text \<open>What the two \<open>setImages\<close> updaters of the loop do to the item they match: the one
  after the call returned, the other in the \<open>catch\<close> block.\<close>

definition editOutcome :: "thrown + jsstring \<Rightarrow> ImageState \<Rightarrow> ImageState" where
  "editOutcome r img =
     (case r of
        Inr newImageUrl \<Rightarrow> img\<lparr>editedUrl := Some newImageUrl, isLoading := False\<rparr>
      | Inl err \<Rightarrow> img\<lparr>error := Some (errorMessage err), isLoading := False\<rparr>)"

text \<open>One iteration of the loop, for the image \<open>im = imagesToProcess[i]\<close>: the
  attempt, the update of the items with the id of \<open>im\<close>, and \<open>setProgress\<close>.\<close>

definition editIteration :: "service \<Rightarrow> Settings \<Rightarrow> nat \<Rightarrow> ImageState \<Rightarrow> EditorState \<Rightarrow> EditorState" where
  "editIteration svc s i im st =
     st\<lparr>images :=
          map (\<lambda>img. if image_id img = image_id im
                 then editOutcome (editAttempt svc s i im) img else img) (images st),
        progress := (progress st)\<lparr>current := i + 1\<rparr>\<rparr>"

text \<open>The loop, from index \<open>i\<close> over the remaining images; its value is the list of the
  states at the end of each iteration.\<close>

fun editLoop :: "service \<Rightarrow> Settings \<Rightarrow> nat \<Rightarrow> ImageState list \<Rightarrow> EditorState \<Rightarrow> EditorState list" where
  "editLoop svc s i [] st = []"
| "editLoop svc s i (im # rest) st =
     editIteration svc s i im st # editLoop svc s (i + 1) rest (editIteration svc s i im st)"

definition imagesToProcess :: "EditorState \<Rightarrow> ImageState list" where
  "imagesToProcess st = filter (\<lambda>img. image_id img \<in> selectedImageIds st) (images st)"

text \<open>The state updates before the loop.\<close>

definition editStart :: "EditorState \<Rightarrow> EditorState" where
  "editStart st =
     st\<lparr>isProcessing := True,
        progress := \<lparr>current = 0, total = length (imagesToProcess st)\<rparr>,
        images :=
          map (\<lambda>img. if image_id img \<in> selectedImageIds st
                 then img\<lparr>isLoading := True, error := None, editedUrl := None\<rparr> else img)
            (images st)\<rparr>"

text \<open>
  The states of a run of handleGenerateEdits, one after each call of \<open>setProgress\<close>: the
  state before the loop and the state at the end of each iteration. It is empty when the
  function returns at its guard.
\<close>

definition editRunStates :: "service \<Rightarrow> EditorState \<Rightarrow> EditorState list" where
  "editRunStates svc st =
     (if length (imagesToProcess st) = 0 \<or> isProcessing st then []
      else editStart st # editLoop svc (settings st) 0 (imagesToProcess st) (editStart st))"

definition handleGenerateEdits :: "service \<Rightarrow> EditorState \<Rightarrow> EditorState" where
  "handleGenerateEdits svc st =
     (if length (imagesToProcess st) = 0 \<or> isProcessing st then st
      else (last (editRunStates svc st))\<lparr>isProcessing := False\<rparr>)"

text \<open>The progress values published by a run, in order.\<close>

definition editPublishedProgress :: "service \<Rightarrow> EditorState \<Rightarrow> Progress list" where
  "editPublishedProgress svc st = map progress (editRunStates svc st)"

text \<open>The effect of the iterations for the images \<open>ts\<close>, from index \<open>i\<close>, on one item.\<close>

fun editItemAfter :: "service \<Rightarrow> Settings \<Rightarrow> nat \<Rightarrow> ImageState list \<Rightarrow> ImageState \<Rightarrow> ImageState" where
  "editItemAfter svc s i [] img = img"
| "editItemAfter svc s i (im # rest) img =
     editItemAfter svc s (i + 1) rest
       (if image_id img = image_id im then editOutcome (editAttempt svc s i im) img
        else img)"

text \<open>The terminal states of an item: it succeeded when it is not loading and has a
  result and no error, it failed when it is not loading and has an error message and no
  result. A result or a message counts when it is present and not empty, as the view
  tests it.\<close>

definition editSucceeded :: "ImageState \<Rightarrow> bool" where
  "editSucceeded img \<longleftrightarrow> \<not> isLoading img \<and> truthy (editedUrl img) \<and> error img = None"

definition editFailed :: "ImageState \<Rightarrow> bool" where
  "editFailed img \<longleftrightarrow> \<not> isLoading img \<and> truthy (error img) \<and> editedUrl img = None"

text \<open>A selected item that has reached a terminal state.\<close>

definition editTerminal :: "EditorState \<Rightarrow> ImageState \<Rightarrow> bool" where
  "editTerminal st img \<longleftrightarrow>
     image_id img \<in> selectedImageIds st \<and> (editSucceeded img \<or> editFailed img)"

section \<open>CompressorView: the run over the whole batch and the auto-compress effect\<close>

text \<open>A file of the browser: its name, time stamp and type, and what a \<open>FileReader\<close>
  reads from it as a data URL (nothing when the reader fails).\<close>

record File =
  file_name :: jsstring
  lastModified :: int
  file_type :: jsstring
  file_dataUrl :: "jsstring option"

definition fileToBase64 :: "File \<Rightarrow> thrown + jsstring option" where
  "fileToBase64 file =
     (case file_dataUrl file of
        None \<Rightarrow> Inl ProgressEvent
      | Some result \<Rightarrow> Inr (at_index (split 44 result) 1))"

text \<open>The type \<open>ImageState\<close> of CompressorView.\<close>

record CompressorImage =
  c_id :: jsstring
  originalFile :: File
  originalUrl :: jsstring
  compressedUrl :: "jsstring option"
  c_isLoading :: bool
  c_error :: "jsstring option"

record CompressorState =
  c_images :: "CompressorImage list"
  c_isProcessing :: bool
  c_progress :: Progress
  c_outputFormat :: OutputFormat
  quality :: int
  detailLevel :: int
  autoCompress :: bool
  targetResolution :: jsstring

text \<open>The body of the \<open>try\<close> block of handleCompress for the image \<open>im\<close>, the \<open>i\<close>-th
  of the run; the settings are the ones of the state \<open>st\<close> in which the run was started.\<close>

definition compressAttempt :: "service \<Rightarrow> CompressorState \<Rightarrow> nat \<Rightarrow> CompressorImage \<Rightarrow> thrown + jsstring" where
  "compressAttempt svc st i im =
     (case fileToBase64 (originalFile im) of
        Inl e \<Rightarrow> Inl e
      | Inr base64Data \<Rightarrow>
          compressImageWithGemini (svc i) base64Data (file_type (originalFile im))
            (c_outputFormat st) (quality st) (detailLevel st) (targetResolution st))"

definition compressOutcome :: "thrown + jsstring \<Rightarrow> CompressorImage \<Rightarrow> CompressorImage" where
  "compressOutcome r img =
     (case r of
        Inr newImageUrl \<Rightarrow> img\<lparr>compressedUrl := Some newImageUrl, c_isLoading := False\<rparr>
      | Inl err \<Rightarrow> img\<lparr>c_error := Some (errorMessage err), c_isLoading := False\<rparr>)"

definition compressIteration ::
  "service \<Rightarrow> CompressorState \<Rightarrow> nat \<Rightarrow> CompressorImage \<Rightarrow> CompressorState \<Rightarrow> CompressorState" where
  "compressIteration svc st0 i im st =
     st\<lparr>c_images :=
          map (\<lambda>img. if c_id img = c_id im
                 then compressOutcome (compressAttempt svc st0 i im) img else img) (c_images st),
        c_progress := (c_progress st)\<lparr>current := i + 1\<rparr>\<rparr>"

fun compressLoop ::
  "service \<Rightarrow> CompressorState \<Rightarrow> nat \<Rightarrow> CompressorImage list \<Rightarrow> CompressorState
   \<Rightarrow> CompressorState list" where
  "compressLoop svc st0 i [] st = []"
| "compressLoop svc st0 i (im # rest) st =
     compressIteration svc st0 i im st
     # compressLoop svc st0 (i + 1) rest (compressIteration svc st0 i im st)"

definition compressStart :: "CompressorState \<Rightarrow> CompressorState" where
  "compressStart st =
     st\<lparr>c_isProcessing := True,
        c_progress := \<lparr>current = 0, total = length (c_images st)\<rparr>,
        c_images :=
          map (\<lambda>img. img\<lparr>c_isLoading := True, c_error := None, compressedUrl := None\<rparr>)
            (c_images st)\<rparr>"

text \<open>The states of a run of handleCompress, one after each call of \<open>setProgress\<close>; empty
  when the function returns at its guard.\<close>

definition compressRunStates :: "service \<Rightarrow> CompressorState \<Rightarrow> CompressorState list" where
  "compressRunStates svc st =
     (if length (c_images st) = 0 \<or> c_isProcessing st then []
      else compressStart st # compressLoop svc st 0 (c_images st) (compressStart st))"

definition handleCompress :: "service \<Rightarrow> CompressorState \<Rightarrow> CompressorState" where
  "handleCompress svc st =
     (if length (c_images st) = 0 \<or> c_isProcessing st then st
      else (last (compressRunStates svc st))\<lparr>c_isProcessing := False\<rparr>)"

definition compressPublishedProgress :: "service \<Rightarrow> CompressorState \<Rightarrow> Progress list" where
  "compressPublishedProgress svc st = map c_progress (compressRunStates svc st)"

text \<open>The effect of the iterations for the images \<open>ts\<close>, from index \<open>i\<close>, on one item.\<close>

fun compressItemAfter ::
  "service \<Rightarrow> CompressorState \<Rightarrow> nat \<Rightarrow> CompressorImage list \<Rightarrow> CompressorImage
   \<Rightarrow> CompressorImage" where
  "compressItemAfter svc st0 i [] img = img"
| "compressItemAfter svc st0 i (im # rest) img =
     compressItemAfter svc st0 (i + 1) rest
       (if c_id img = c_id im then compressOutcome (compressAttempt svc st0 i im) img else img)"

text \<open>The terminal states of an item of CompressorView, and an item that has reached
  one of them.\<close>

definition compressSucceeded :: "CompressorImage \<Rightarrow> bool" where
  "compressSucceeded img \<longleftrightarrow>
     \<not> c_isLoading img \<and> truthy (compressedUrl img) \<and> c_error img = None"

definition compressFailed :: "CompressorImage \<Rightarrow> bool" where
  "compressFailed img \<longleftrightarrow>
     \<not> c_isLoading img \<and> truthy (c_error img) \<and> compressedUrl img = None"

definition compressTerminal :: "CompressorImage \<Rightarrow> bool" where
  "compressTerminal img \<longleftrightarrow> compressSucceeded img \<or> compressFailed img"

subsection \<open>The effect that starts a run automatically\<close>

definition hasUnprocessedImages :: "CompressorState \<Rightarrow> bool" where
  "hasUnprocessedImages st =
     (case c_images st of
        [] \<Rightarrow> False
      | img0 # _ \<Rightarrow>
          \<not> c_isLoading img0 \<and> \<not> truthy (compressedUrl img0) \<and> \<not> truthy (c_error img0))"

text \<open>The condition under which the effect calls handleCompress.\<close>

definition autoCompressFires :: "CompressorState \<Rightarrow> bool" where
  "autoCompressFires st \<longleftrightarrow> autoCompress st \<and> \<not> c_isProcessing st \<and> hasUnprocessedImages st"

definition autoCompressEffect :: "service \<Rightarrow> CompressorState \<Rightarrow> CompressorState" where
  "autoCompressEffect svc st = (if autoCompressFires st then handleCompress svc st else st)"

subsection \<open>The handlers of the view\<close>

text \<open>A file handed over by the upload, with the values the environment supplies for its
  item: the printed \<open>Math.random()\<close> and the object URL.\<close>

record Upload =
  upload_file :: File
  upload_random :: jsstring
  upload_objectUrl :: jsstring

definition handleReset :: "CompressorState \<Rightarrow> CompressorState" where
  "handleReset st =
     st\<lparr>c_images := [], c_isProcessing := False, c_progress := \<lparr>current = 0, total = 0\<rparr>\<rparr>"

definition newImage :: "Upload \<Rightarrow> CompressorImage" where
  "newImage u =
     \<lparr>c_id = file_name (upload_file u) @ js ''-'' @ show_int (lastModified (upload_file u))
        @ js ''-'' @ upload_random u,
      originalFile = upload_file u,
      originalUrl = upload_objectUrl u,
      compressedUrl = None,
      c_isLoading = False,
      c_error = None\<rparr>"

definition handleImageSelect :: "Upload list \<Rightarrow> CompressorState \<Rightarrow> CompressorState" where
  "handleImageSelect files st = (handleReset st)\<lparr>c_images := map newImage files\<rparr>"

text \<open>The events of the view that change its state. A handler is modelled whether or not
  the view currently enables its control.\<close>

datatype event =
  ImageSelect "Upload list" | StartOver | CompressClicked | AutoCompressToggled
  | PresetChosen int int | QualityChosen int | DetailLevelChosen int
  | ResolutionChosen jsstring | OutputFormatChosen OutputFormat

fun isImageSelect :: "event \<Rightarrow> bool" where
  "isImageSelect (ImageSelect files) = True"
| "isImageSelect ev = False"

fun handleEvent :: "service \<Rightarrow> event \<Rightarrow> CompressorState \<Rightarrow> CompressorState" where
  "handleEvent svc (ImageSelect files) st = handleImageSelect files st"
| "handleEvent svc StartOver st = handleReset st"
| "handleEvent svc CompressClicked st = handleCompress svc st"
| "handleEvent svc AutoCompressToggled st = st\<lparr>autoCompress := \<not> autoCompress st\<rparr>"
| "handleEvent svc (PresetChosen q d) st = st\<lparr>quality := q, detailLevel := d\<rparr>"
| "handleEvent svc (QualityChosen q) st = st\<lparr>quality := q\<rparr>"
| "handleEvent svc (DetailLevelChosen d) st = st\<lparr>detailLevel := d\<rparr>"
| "handleEvent svc (ResolutionChosen r) st = st\<lparr>targetResolution := r\<rparr>"
| "handleEvent svc (OutputFormatChosen f) st = st\<lparr>c_outputFormat := f\<rparr>"

text \<open>
  The states in which the effect called handleCompress, over a sequence of events. The
  effect is evaluated after the handler of each event; an event comes with the answers
  that the service gives during a run started at it. A run is taken as a whole here: the
  view disables its controls while \<open>isProcessing\<close> is set, so no event falls inside a
  run, and the states inside a run are those of \<open>compressRunStates\<close>.
\<close>

fun autoRuns :: "(service \<times> event) list \<Rightarrow> CompressorState \<Rightarrow> CompressorState list" where
  "autoRuns [] st = []"
| "autoRuns ((svc, ev) # rest) st =
     (if autoCompressFires (handleEvent svc ev st) then [handleEvent svc ev st] else [])
     @ autoRuns rest (autoCompressEffect svc (handleEvent svc ev st))"

text \<open>An item on which nothing has been attempted: not loading, no result, no error.\<close>

definition unattempted :: "CompressorImage \<Rightarrow> bool" where
  "unattempted img \<longleftrightarrow> \<not> c_isLoading img \<and> compressedUrl img = None \<and> c_error img = None"

section \<open>Example inputs\<close>

text \<open>The default filters with the grayscale filter switched on at intensity 0, as the
  intensity slider of the editor allows.\<close>

definition grayscaleAtZero :: FilterConfig where
  "grayscaleAtZero =
     \<lparr>grayscale = \<lparr>grayscale_enabled = True, grayscale_intensity = 0\<rparr>,
      brightness = 100, contrast = 100\<rparr>"

text \<open>An enabled watermark and an enabled text overlay whose texts are blank: spaces, a
  tab, a line feed, a no-break space.\<close>

definition blankWatermark :: WatermarkConfig where
  "blankWatermark =
     \<lparr>watermark_enabled = True, watermark_text = [32, 9, 32], watermark_opacity = 50,
      watermark_scale = 25, watermark_color = js ''#FFFFFF'', watermark_position = bottom_right\<rparr>"

definition blankTextOverlay :: TextOverlayConfig where
  "blankTextOverlay =
     \<lparr>overlay_enabled = True, overlay_content = [10, 160], overlay_font = js ''Arial, sans-serif'',
      overlay_size = 48, overlay_color = js ''#FFFFFF'', positionX = 50, positionY = 50\<rparr>"

text \<open>A response whose first candidate has a text part, then a JPEG image, then a PNG
  image; and the response to a blocked prompt, which has no candidates.\<close>

definition imageParts :: "Part list" where
  "imageParts =
     [\<lparr>inlineData = None, part_text = Some (js ''Here is the edited image.'')\<rparr>,
      \<lparr>inlineData = Some \<lparr>blob_data = Some (js ''QUJD''),
         blob_mimeType = Some (js ''image/jpeg'')\<rparr>, part_text = None\<rparr>,
      \<lparr>inlineData = Some \<lparr>blob_data = Some (js ''REVG''),
         blob_mimeType = Some (js ''image/png'')\<rparr>, part_text = None\<rparr>]"

definition imageAnswer :: GenerateContentResponse where
  "imageAnswer = \<lparr>candidates = Some [\<lparr>content = Some \<lparr>parts = Some imageParts\<rparr>\<rparr>]\<rparr>"

definition blockedAnswer :: GenerateContentResponse where
  "blockedAnswer = \<lparr>candidates = None\<rparr>"

text \<open>A service whose second call of a run is rejected and whose other calls succeed.\<close>

definition failsSecond :: service where
  "failsSecond i req =
     (if i = 1 then Inl (Error (Some (js ''Quota exceeded.''))) else Inr imageAnswer)"

definition photo :: "jsstring \<Rightarrow> ImageState" where
  "photo name =
     \<lparr>image_id = name @ js ''-1700000000000-0.5'',
      originalDataUrl = js ''data:image/png;base64,SU1H'',
      originalFileName = name,
      originalFileType = js ''image/png'',
      editedUrl = None, isLoading = False, error = None\<rparr>"

text \<open>A batch of two images, both selected.\<close>

definition twoSelected :: EditorState where
  "twoSelected =
     \<lparr>images = [photo (js ''a.png''), photo (js ''b.png'')],
      isProcessing = False,
      progress = \<lparr>current = 0, total = 0\<rparr>,
      selectedImageIds = {image_id (photo (js ''a.png'')), image_id (photo (js ''b.png''))},
      settings = defaultSettings\<rparr>"

text \<open>A batch of three images after an earlier run: the second one failed and is the
  only one selected, the third one has a result.\<close>

definition oneOfThree :: EditorState where
  "oneOfThree =
     \<lparr>images = [photo (js ''a.png''),
                (photo (js ''b.png''))\<lparr>error := Some (js ''Quota exceeded.'')\<rparr>,
                (photo (js ''c.png''))\<lparr>editedUrl := Some (js ''data:image/png;base64,QUJD'')\<rparr>],
      isProcessing = False,
      progress = \<lparr>current = 2, total = 2\<rparr>,
      selectedImageIds = {image_id (photo (js ''b.png''))},
      settings = defaultSettings\<rparr>"

definition upload :: "jsstring \<Rightarrow> Upload" where
  "upload name =
     \<lparr>upload_file = \<lparr>file_name = name, lastModified = 1700000000000,
        file_type = js ''image/png'',
        file_dataUrl = Some (js ''data:image/png;base64,SU1H'')\<rparr>,
      upload_random = js ''0.5'',
      upload_objectUrl = js ''blob:'' @ name\<rparr>"

text \<open>The state of CompressorView when it is mounted, and a batch of two images in it.\<close>

definition initialCompressor :: CompressorState where
  "initialCompressor =
     \<lparr>c_images = [], c_isProcessing = False, c_progress = \<lparr>current = 0, total = 0\<rparr>,
      c_outputFormat = image_png, quality = 75, detailLevel = 75, autoCompress = False,
      targetResolution = js ''original''\<rparr>"

definition twoLoaded :: CompressorState where
  "twoLoaded =
     handleImageSelect [upload (js ''a.png''), upload (js ''b.png'')] initialCompressor"

text \<open>Events after a batch was loaded: the auto-compress switch is turned off and on
  again, then the compress button is clicked.\<close>

definition laterEvents :: "(service \<times> event) list" where
  "laterEvents =
     [(failsSecond, AutoCompressToggled), (failsSecond, AutoCompressToggled),
      (failsSecond, CompressClicked)]"

section \<open>Properties of the instruction compiler\<close>

lemma subseq_optional: "subseq (if c then [s] else []) [s]"
  by simp

lemma dropWhile_all_iff: "(\<forall>c\<in>set (dropWhile P s). P c) \<longleftrightarrow> (\<forall>c\<in>set s. P c)"
  by (induction s) auto

lemma trim_empty_iff: "trim s = [] \<longleftrightarrow> (\<forall>c\<in>set s. is_whitespace c)"
  by (simp add: trim_def dropWhile_all_iff)

text \<open>The label of each block is the one its text announces: every block of the
  compiled sequence begins with the header line of its stage.\<close>

lemma text_begins_with_header:
  "prefix (stageHeader UserRequest) (userRequestText u)"
  "prefix (stageHeader Rotation) (rotationText angle)"
  "prefix (stageHeader Crop) (cropText cc)"
  "prefix (stageHeader Filters) (filterText instructions)"
  "prefix (stageHeader TransparencyHandling) (transparencyText trc)"
  "prefix (stageHeader Watermark) (watermarkText wc)"
  "prefix (stageHeader Resize) (resizeText rc)"
  "prefix (stageHeader TextOverlay) (textOverlayText tc)"
  "prefix (stageHeader OutputEncoding) (outputText fmt q)"
  by (simp_all add: userRequestText_def rotationText_def cropText_def filterText_def
      transparencyText_def watermarkText_def resizeText_def textOverlayText_def
      outputText_def)

lemma set_optional: "x \<in> set (if c then [y] else []) \<longleftrightarrow> c \<and> x = y"
  by auto

lemma block_begins_with_header:
  "(s, t) \<in> set (promptBlocks u fmt q rc cc angle tc fc trc wc) \<Longrightarrow> prefix (stageHeader s) t"
  unfolding promptBlocks_def set_append Un_iff set_optional list.set insert_iff empty_iff
    prod.inject
  by (elim disjE conjE FalseE; hypsubst; rule text_begins_with_header)

text \<open>
  C1. For all settings, the stages of the compiled sequence appear in the fixed order
  user request, rotation, crop, filters, transparency, watermark, resize, text overlay,
  output encoding: the list of the stages present is a subsequence of that order, so each
  stage occurs at most once and the stages that are present keep their relative order.
\<close>

theorem stages_in_fixed_order:
  "subseq (stages u fmt q rc cc angle tc fc trc wc) stageOrder"
proof -
  have "subseq
     ([UserRequest]
      @ (if angle \<noteq> 0 then [Rotation] else [])
      @ (if crop_enabled cc then [Crop] else [])
      @ (if length (filterInstructions fc) > 0 then [Filters] else [])
      @ [TransparencyHandling]
      @ (if watermark_enabled wc \<and> trim (watermark_text wc) \<noteq> [] then [Watermark] else [])
      @ (if resize_enabled rc then [Resize] else [])
      @ (if overlay_enabled tc \<and> trim (overlay_content tc) \<noteq> [] then [TextOverlay] else [])
      @ [OutputEncoding])
     ([UserRequest] @ [Rotation] @ [Crop] @ [Filters] @ [TransparencyHandling] @ [Watermark]
      @ [Resize] @ [TextOverlay] @ [OutputEncoding])"
    by (intro list_emb_append_mono subseq_optional subseq_order.order_refl)
  then show ?thesis
    by (simp add: stages_def promptBlocks_def stageOrder_def)
qed

text \<open>
  C2. When the rotation angle is 0, crop, grayscale, watermark, resize and text overlay
  are disabled, and brightness and contrast are 100, the compiled sequence consists of the
  user's request followed by exactly two stages, transparency handling and output
  encoding: its blocks are the request, the transparency block and the output block with
  their texts, each of the two beginning with the header line of its stage, and the
  prompt sent to the service is the concatenation of these three texts.
\<close>

theorem only_unconditional_stages:
  assumes "angle = 0" and "\<not> crop_enabled cc"
    and "\<not> grayscale_enabled (grayscale fc)" and "brightness fc = 100" and "contrast fc = 100"
    and "\<not> watermark_enabled wc" and "\<not> resize_enabled rc" and "\<not> overlay_enabled tc"
  shows "promptBlocks u fmt q rc cc angle tc fc trc wc
           = [(UserRequest, userRequestText u),
              (TransparencyHandling, transparencyText trc),
              (OutputEncoding, outputText fmt q)]
       \<and> finalPrompt u fmt q rc cc angle tc fc trc wc
           = userRequestText u @ transparencyText trc @ outputText fmt q
       \<and> stages u fmt q rc cc angle tc fc trc wc
           = [UserRequest, TransparencyHandling, OutputEncoding]
       \<and> prefix (nl @ nl @ js ''--- TRANSPARENCY HANDLING ---'' @ nl) (transparencyText trc)
       \<and> prefix (nl @ nl @ js ''--- OUTPUT FORMAT ---'' @ nl) (outputText fmt q)"
proof -
  have blocks: "promptBlocks u fmt q rc cc angle tc fc trc wc
           = [(UserRequest, userRequestText u),
              (TransparencyHandling, transparencyText trc),
              (OutputEncoding, outputText fmt q)]"
    using assms by (simp add: promptBlocks_def filterInstructions_def)
  have "prefix (nl @ nl @ js ''--- TRANSPARENCY HANDLING ---'' @ nl) (transparencyText trc)"
    and "prefix (nl @ nl @ js ''--- OUTPUT FORMAT ---'' @ nl) (outputText fmt q)"
    by (simp_all add: transparencyText_def outputText_def)
  with blocks show ?thesis
    by (simp add: finalPrompt_def stages_def)
qed

theorem only_unconditional_stages_default:
  "rotationAngle defaultSettings = 0 \<and> \<not> crop_enabled (cropConfig defaultSettings)
   \<and> \<not> grayscale_enabled (grayscale (filterConfig defaultSettings))
   \<and> brightness (filterConfig defaultSettings) = 100
   \<and> contrast (filterConfig defaultSettings) = 100
   \<and> \<not> watermark_enabled (watermarkConfig defaultSettings)
   \<and> \<not> resize_enabled (resizeConfig defaultSettings)
   \<and> \<not> overlay_enabled (textOverlayConfig defaultSettings)
   \<and> stages (userPrompt defaultSettings) (outputFormat defaultSettings)
        (outputQuality defaultSettings) (resizeConfig defaultSettings)
        (cropConfig defaultSettings) (rotationAngle defaultSettings)
        (textOverlayConfig defaultSettings) (filterConfig defaultSettings)
        (transparencyConfig defaultSettings) (watermarkConfig defaultSettings)
      = [UserRequest, TransparencyHandling, OutputEncoding]
   \<and> finalPrompt (userPrompt defaultSettings) (outputFormat defaultSettings)
        (outputQuality defaultSettings) (resizeConfig defaultSettings)
        (cropConfig defaultSettings) (rotationAngle defaultSettings)
        (textOverlayConfig defaultSettings) (filterConfig defaultSettings)
        (transparencyConfig defaultSettings) (watermarkConfig defaultSettings)
      = js ''Apply the following edits to the image. The user's primary request is: '' @ dq
        @ js ''Make this image look more professional and vibrant.'' @ dq @ js ''.''
        @ nl @ nl @ js ''--- TRANSPARENCY HANDLING ---'' @ nl
        @ js ''Preserve any transparency (alpha channel) from the original image in the final output. The background must remain transparent.''
        @ nl @ nl @ js ''--- OUTPUT FORMAT ---'' @ nl
        @ js ''Encode the final image as lossless image/png.''"
  using only_unconditional_stages
    [of "rotationAngle defaultSettings" "cropConfig defaultSettings"
      "filterConfig defaultSettings" "watermarkConfig defaultSettings"
      "resizeConfig defaultSettings" "textOverlayConfig defaultSettings"
      "userPrompt defaultSettings" "outputFormat defaultSettings"
      "outputQuality defaultSettings" "transparencyConfig defaultSettings"]
  by (simp add: defaultSettings_def userRequestText_def transparencyText_def outputText_def
      js_def)

text \<open>
  C3, as the claim states it, fails: with grayscale enabled and intensity 0 the source
  pushes the grayscale instruction, since it tests the enabled flag only. At the default
  settings with that filter configuration the compiled sequence has a filter stage, whose
  single instruction is the grayscale instruction with intensity 0.
\<close>

theorem grayscale_at_zero_is_emitted:
  "grayscale_enabled (grayscale grayscaleAtZero)
   \<and> grayscale_intensity (grayscale grayscaleAtZero) = 0
   \<and> filterInstructions grayscaleAtZero =
       [(GrayscaleFilter,
         js ''apply a grayscale filter with an intensity of 0%. A value of 100% results in a fully black and white image, while a lower value partially desaturates the image'')]
   \<and> stages (userPrompt defaultSettings) (outputFormat defaultSettings)
        (outputQuality defaultSettings) (resizeConfig defaultSettings)
        (cropConfig defaultSettings) (rotationAngle defaultSettings)
        (textOverlayConfig defaultSettings) grayscaleAtZero
        (transparencyConfig defaultSettings) (watermarkConfig defaultSettings)
      = [UserRequest, Filters, TransparencyHandling, OutputEncoding]"
  by (simp add: grayscaleAtZero_def filterInstructions_def grayscaleText_def show_int_def
      js_def stages_def promptBlocks_def defaultSettings_def)

text \<open>
  C3, amended. The grayscale instruction is among the filter instructions exactly when
  grayscale is enabled, and it then states the intensity as it is set, 0 included; the
  compiled sequence has a filter stage exactly when there is some filter instruction, its
  text being built from all of them.
\<close>

theorem grayscale_emitted_iff_enabled:
  "(GrayscaleFilter \<in> fst ` set (filterInstructions fc)) = grayscale_enabled (grayscale fc)
   \<and> ((GrayscaleFilter, grayscaleText (grayscale_intensity (grayscale fc)))
        \<in> set (filterInstructions fc)) = grayscale_enabled (grayscale fc)
   \<and> (Filters \<in> set (stages u fmt q rc cc angle tc fc trc wc)) = (filterInstructions fc \<noteq> [])
   \<and> ((Filters, filterText (map snd (filterInstructions fc)))
        \<in> set (promptBlocks u fmt q rc cc angle tc fc trc wc)) = (filterInstructions fc \<noteq> [])"
  by (auto simp: filterInstructions_def stages_def promptBlocks_def)

theorem grayscale_emitted_iff_enabled_example:
  "GrayscaleFilter \<in> fst ` set (filterInstructions grayscaleAtZero)
   \<and> filterInstructions grayscaleAtZero \<noteq> []
   \<and> Filters \<in> set (stages (userPrompt defaultSettings) (outputFormat defaultSettings)
        (outputQuality defaultSettings) (resizeConfig defaultSettings)
        (cropConfig defaultSettings) (rotationAngle defaultSettings)
        (textOverlayConfig defaultSettings) grayscaleAtZero
        (transparencyConfig defaultSettings) (watermarkConfig defaultSettings))"
proof -
  have e: "grayscale_enabled (grayscale grayscaleAtZero)"
    by (simp add: grayscaleAtZero_def)
  from e grayscale_emitted_iff_enabled
    [of grayscaleAtZero "userPrompt defaultSettings" "outputFormat defaultSettings"
      "outputQuality defaultSettings" "resizeConfig defaultSettings"
      "cropConfig defaultSettings" "rotationAngle defaultSettings"
      "textOverlayConfig defaultSettings" "transparencyConfig defaultSettings"
      "watermarkConfig defaultSettings"]
  show ?thesis by force
qed

text \<open>
  C4. When the watermark text consists of whitespace only, the compiled sequence has no
  watermark stage, and when the content of the text overlay consists of whitespace only,
  it has no text overlay stage, whatever the enabled flags are.
\<close>

theorem blank_text_disables_stage:
  "((\<forall>c\<in>set (watermark_text wc). is_whitespace c) \<longrightarrow>
      Watermark \<notin> set (stages u fmt q rc cc angle tc fc trc wc))
   \<and> ((\<forall>c\<in>set (overlay_content tc). is_whitespace c) \<longrightarrow>
      TextOverlay \<notin> set (stages u fmt q rc cc angle tc fc trc wc))"
  by (auto simp: stages_def promptBlocks_def trim_empty_iff)

theorem blank_text_disables_stage_example:
  "watermark_enabled blankWatermark \<and> overlay_enabled blankTextOverlay
   \<and> list_all is_whitespace (watermark_text blankWatermark)
   \<and> list_all is_whitespace (overlay_content blankTextOverlay)
   \<and> Watermark \<notin> set (stages (userPrompt defaultSettings) (outputFormat defaultSettings)
        (outputQuality defaultSettings) (resizeConfig defaultSettings)
        (cropConfig defaultSettings) (rotationAngle defaultSettings) blankTextOverlay
        (filterConfig defaultSettings) (transparencyConfig defaultSettings) blankWatermark)
   \<and> TextOverlay \<notin> set (stages (userPrompt defaultSettings) (outputFormat defaultSettings)
        (outputQuality defaultSettings) (resizeConfig defaultSettings)
        (cropConfig defaultSettings) (rotationAngle defaultSettings) blankTextOverlay
        (filterConfig defaultSettings) (transparencyConfig defaultSettings) blankWatermark)"
proof -
  have w: "\<forall>c\<in>set (watermark_text blankWatermark). is_whitespace c"
    by (simp add: blankWatermark_def is_whitespace_def)
  have t: "\<forall>c\<in>set (overlay_content blankTextOverlay). is_whitespace c"
    by (simp add: blankTextOverlay_def is_whitespace_def)
  have e: "watermark_enabled blankWatermark \<and> overlay_enabled blankTextOverlay"
    by (simp add: blankWatermark_def blankTextOverlay_def)
  from w t e blank_text_disables_stage
    [of blankWatermark "userPrompt defaultSettings" "outputFormat defaultSettings"
      "outputQuality defaultSettings" "resizeConfig defaultSettings"
      "cropConfig defaultSettings" "rotationAngle defaultSettings" blankTextOverlay
      "filterConfig defaultSettings" "transparencyConfig defaultSettings"]
  show ?thesis by (simp add: list_all_iff)
qed

section \<open>Properties of the response handling\<close>

lemma firstInlineData_eq:
  "firstInlineData fmt ps =
     (case List.map_filter inlineData ps of
        [] \<Rightarrow> Inl (Error (Some (js ''No image was generated.'')))
      | blob # _ \<Rightarrow> Inr (js ''data:'' @ mime fmt @ js '';base64,'' @ interpolate (blob_data blob)))"
  by (induction ps) (simp_all split: option.splits)

lemma firstInlineData_nonempty: "firstInlineData fmt ps = Inr url \<Longrightarrow> url \<noteq> []"
  by (induction ps) (auto simp: js_def split: option.splits)

lemma map_filter_Nil_iff: "List.map_filter f xs = [] \<longleftrightarrow> (\<forall>x\<in>set xs. f x = None)"
  by (induction xs) (simp_all split: option.splits)

text \<open>
  C10, as the claim states it, fails for a response that has no candidates, as the
  service sends when it blocks a prompt: no part of it contains inline image data, yet
  editImageWithGemini does not throw \<open>No image was generated.\<close> but the type error of
  reading \<open>candidates[0]\<close>.
\<close>

theorem no_candidates_throws_type_error:
  "candidates blockedAnswer = None
   \<and> editImageWithGemini (\<lambda>req. Inr blockedAnswer) (Some (js ''SU1H'')) (js ''image/webp'')
        (userPrompt defaultSettings) image_png (outputQuality defaultSettings)
        (resizeConfig defaultSettings) (cropConfig defaultSettings)
        (rotationAngle defaultSettings) (textOverlayConfig defaultSettings)
        (filterConfig defaultSettings) (transparencyConfig defaultSettings)
        (watermarkConfig defaultSettings)
      = Inl (TypeError (js ''Cannot read properties of undefined (reading '0')''))
   \<and> editImageWithGemini (\<lambda>req. Inr blockedAnswer) (Some (js ''SU1H'')) (js ''image/webp'')
        (userPrompt defaultSettings) image_png (outputQuality defaultSettings)
        (resizeConfig defaultSettings) (cropConfig defaultSettings)
        (rotationAngle defaultSettings) (textOverlayConfig defaultSettings)
        (filterConfig defaultSettings) (transparencyConfig defaultSettings)
        (watermarkConfig defaultSettings)
      \<noteq> Inl (Error (Some (js ''No image was generated.'')))"
  by (simp add: editImageWithGemini_def responseParts_def blockedAnswer_def)

text \<open>
  C10, amended. For every response whose first candidate carries a list of parts,
  editImageWithGemini returns the data URL made of the requested output format and the
  data of the first part that has inline data, whatever type the service declares for
  that data; and it throws \<open>No image was generated.\<close> exactly when no part of the list has
  inline data.
\<close>

theorem edit_result_of_response:
  assumes "generate \<lparr>request_data = d, request_mimeType = m,
             request_text = finalPrompt u fmt q rc cc angle tc fc trc wc\<rparr> = Inr response"
    and "candidates response = Some (c # cs)" and "content c = Some ct"
    and "parts ct = Some ps"
  shows "editImageWithGemini generate d m u fmt q rc cc angle tc fc trc wc =
           (case List.map_filter inlineData ps of
              [] \<Rightarrow> Inl (Error (Some (js ''No image was generated.'')))
            | blob # _ \<Rightarrow>
                Inr (js ''data:'' @ mime fmt @ js '';base64,'' @ interpolate (blob_data blob)))
         \<and> (editImageWithGemini generate d m u fmt q rc cc angle tc fc trc wc
              = Inl (Error (Some (js ''No image was generated.'')))
            \<longleftrightarrow> (\<forall>p\<in>set ps. inlineData p = None))"
proof -
  have r: "editImageWithGemini generate d m u fmt q rc cc angle tc fc trc wc
           = firstInlineData fmt ps"
    using assms by (simp add: editImageWithGemini_def responseParts_def)
  show ?thesis
    unfolding r firstInlineData_eq
    by (simp add: map_filter_Nil_iff [symmetric] split: list.splits)
qed

theorem edit_result_of_response_example:
  "candidates imageAnswer = Some [\<lparr>content = Some \<lparr>parts = Some imageParts\<rparr>\<rparr>]
   \<and> editImageWithGemini (\<lambda>req. Inr imageAnswer) (Some (js ''SU1H'')) (js ''image/webp'')
        (userPrompt defaultSettings) image_png (outputQuality defaultSettings)
        (resizeConfig defaultSettings) (cropConfig defaultSettings)
        (rotationAngle defaultSettings) (textOverlayConfig defaultSettings)
        (filterConfig defaultSettings) (transparencyConfig defaultSettings)
        (watermarkConfig defaultSettings)
      = Inr (js ''data:image/png;base64,QUJD'')"
  using edit_result_of_response
    [of "\<lambda>req. Inr imageAnswer" "Some (js ''SU1H'')" "js ''image/webp''"
      "userPrompt defaultSettings" image_png "outputQuality defaultSettings"
      "resizeConfig defaultSettings" "cropConfig defaultSettings"
      "rotationAngle defaultSettings" "textOverlayConfig defaultSettings"
      "filterConfig defaultSettings" "transparencyConfig defaultSettings"
      "watermarkConfig defaultSettings" imageAnswer
      "\<lparr>content = Some \<lparr>parts = Some imageParts\<rparr>\<rparr>" "[]" "\<lparr>parts = Some imageParts\<rparr>"
      imageParts]
  by (simp add: imageAnswer_def imageParts_def js_def interpolate_def)

section \<open>Properties of a run of handleGenerateEdits\<close>

lemma editOutcome_id [simp]: "image_id (editOutcome r img) = image_id img"
  by (simp add: editOutcome_def split: sum.splits)

lemma editOutcome_not_loading [simp]: "\<not> isLoading (editOutcome r img)"
  by (simp add: editOutcome_def split: sum.splits)

lemma editItemAfter_id [simp]: "image_id (editItemAfter svc s i ts img) = image_id img"
  by (induction ts arbitrary: i img) simp_all

lemma editItemAfter_other:
  "image_id img \<notin> image_id ` set ts \<Longrightarrow> editItemAfter svc s i ts img = img"
  by (induction ts arbitrary: i) auto

lemma editItemAfter_hit:
  "distinct (map image_id ts) \<Longrightarrow> k < length ts \<Longrightarrow> image_id img = image_id (ts ! k)
   \<Longrightarrow> editItemAfter svc s i ts img = editOutcome (editAttempt svc s (i + k) (ts ! k)) img"
proof (induction ts arbitrary: i k img)
  case Nil
  then show ?case by simp
next
  case (Cons t ts)
  show ?case
  proof (cases k)
    case 0
    with Cons.prems show ?thesis
      by (simp add: editItemAfter_other)
  next
    case (Suc k')
    with Cons.prems have "image_id img \<noteq> image_id t"
      by (metis distinct.simps(2) length_Cons list.simps(9) nth_Cons_Suc nth_map nth_mem Suc_less_eq length_map)
    with Cons.prems Suc Cons.IH [of k' img "i + 1"] show ?thesis
      by simp
  qed
qed

lemma editItemAfter_append:
  "editItemAfter svc s i (xs @ ys) img
     = editItemAfter svc s (i + length xs) ys (editItemAfter svc s i xs img)"
  by (induction xs arbitrary: i img) simp_all

lemma editLoop_length [simp]: "length (editLoop svc s i ts st) = length ts"
  by (induction ts arbitrary: i st) simp_all

lemma editLoop_nth:
  "n < length ts \<Longrightarrow>
   editLoop svc s i ts st ! n =
     st\<lparr>images := map (editItemAfter svc s i (take (Suc n) ts)) (images st),
        progress := (progress st)\<lparr>current := i + n + 1\<rparr>\<rparr>"
proof (induction ts arbitrary: i st n)
  case Nil
  then show ?case by simp
next
  case (Cons t ts)
  show ?case
  proof (cases n)
    case 0
    then show ?thesis by (simp add: editIteration_def)
  next
    case (Suc m)
    with Cons.prems have "m < length ts" by simp
    from Cons.IH [OF this, of "i + 1" "editIteration svc s i t st"] Suc show ?thesis
      by (simp add: editIteration_def comp_def)
  qed
qed

lemma editRunStates_length:
  "imagesToProcess st \<noteq> [] \<Longrightarrow> \<not> isProcessing st
   \<Longrightarrow> length (editRunStates svc st) = Suc (length (imagesToProcess st))"
  by (simp add: editRunStates_def)

lemma editRunStates_nth:
  assumes "imagesToProcess st \<noteq> []" and "\<not> isProcessing st"
    and "k \<le> length (imagesToProcess st)"
  shows "editRunStates svc st ! k =
     (editStart st)\<lparr>images :=
         map (editItemAfter svc (settings st) 0 (take k (imagesToProcess st)))
           (images (editStart st)),
       progress := \<lparr>current = k, total = length (imagesToProcess st)\<rparr>\<rparr>"
proof (cases k)
  case 0
  with assms show ?thesis
    by (simp add: editRunStates_def editStart_def)
next
  case (Suc m)
  with assms have "m < length (imagesToProcess st)" by simp
  from editLoop_nth [OF this, of svc "settings st" 0 "editStart st"] assms Suc show ?thesis
    by (simp add: editRunStates_def editStart_def)
qed

lemma imagesToProcess_ids:
  "image_id ` set (imagesToProcess st) \<subseteq> selectedImageIds st"
  by (auto simp: imagesToProcess_def)

lemma editItemAfter_unselected:
  "image_id img \<notin> selectedImageIds st
   \<Longrightarrow> editItemAfter svc s i (take k (imagesToProcess st)) img = img"
  using imagesToProcess_ids [of st]
  by (intro editItemAfter_other) (auto dest: in_set_takeD)

lemma editRunStates_images:
  assumes "imagesToProcess st \<noteq> []" and "\<not> isProcessing st"
    and "k \<le> length (imagesToProcess st)"
  shows "images (editRunStates svc st ! k) =
     map (\<lambda>img. editItemAfter svc (settings st) 0 (take k (imagesToProcess st))
            (if image_id img \<in> selectedImageIds st
             then img\<lparr>isLoading := True, error := None, editedUrl := None\<rparr> else img))
       (images st)"
  using editRunStates_nth [OF assms, of svc]
  by (simp add: editStart_def comp_def)

lemma handleGenerateEdits_last:
  assumes "imagesToProcess st \<noteq> []" and "\<not> isProcessing st"
  shows "handleGenerateEdits svc st =
           (editRunStates svc st ! length (imagesToProcess st))\<lparr>isProcessing := False\<rparr>"
proof -
  have "editRunStates svc st \<noteq> []"
    using assms by (simp add: editRunStates_def)
  then have "last (editRunStates svc st) = editRunStates svc st ! length (imagesToProcess st)"
    using editRunStates_length [OF assms, of svc] by (simp add: last_conv_nth)
  then show ?thesis
    using assms by (simp add: handleGenerateEdits_def)
qed

text \<open>
  C5. When the selection is empty, or when a run is active, handleGenerateEdits returns
  the state as it is (no item, no progress counter and no processing flag changes) and
  publishes nothing: no run is started.
\<close>

theorem generate_edits_guard:
  "selectedImageIds st = {} \<or> isProcessing st
   \<Longrightarrow> handleGenerateEdits svc st = st \<and> editRunStates svc st = []"
  by (auto simp: handleGenerateEdits_def editRunStates_def imagesToProcess_def)

theorem generate_edits_guard_example:
  "selectedImageIds (twoSelected\<lparr>selectedImageIds := {}\<rparr>) = {}
   \<and> handleGenerateEdits failsSecond (twoSelected\<lparr>selectedImageIds := {}\<rparr>)
       = twoSelected\<lparr>selectedImageIds := {}\<rparr>
   \<and> editRunStates failsSecond (twoSelected\<lparr>selectedImageIds := {}\<rparr>) = []
   \<and> isProcessing (twoSelected\<lparr>isProcessing := True\<rparr>)
   \<and> handleGenerateEdits failsSecond (twoSelected\<lparr>isProcessing := True\<rparr>)
       = twoSelected\<lparr>isProcessing := True\<rparr>
   \<and> editRunStates failsSecond (twoSelected\<lparr>isProcessing := True\<rparr>) = []"
  using generate_edits_guard [of "twoSelected\<lparr>selectedImageIds := {}\<rparr>" failsSecond]
    generate_edits_guard [of "twoSelected\<lparr>isProcessing := True\<rparr>" failsSecond]
  by simp

lemma unselected_kept:
  assumes "s' \<in> set (editRunStates svc st @ [handleGenerateEdits svc st])"
  shows "list_all2 (\<lambda>old new. image_id old \<notin> selectedImageIds st \<longrightarrow> new = old)
           (images st) (images s')"
proof (cases "imagesToProcess st \<noteq> [] \<and> \<not> isProcessing st")
  case False
  then have "editRunStates svc st = []" and "handleGenerateEdits svc st = st"
    by (auto simp: handleGenerateEdits_def editRunStates_def)
  with assms show ?thesis
    by (simp add: list_all2_same)
next
  case True
  then have g: "imagesToProcess st \<noteq> []" "\<not> isProcessing st" by simp_all
  from assms obtain k where k: "k \<le> length (imagesToProcess st)"
    and "images s' = images (editRunStates svc st ! k)"
  proof (cases "s' \<in> set (editRunStates svc st)")
    case True
    then obtain k where "k < length (editRunStates svc st)" "editRunStates svc st ! k = s'"
      by (auto simp: in_set_conv_nth)
    with that [of k] editRunStates_length [OF g, of svc] show ?thesis by simp
  next
    case False
    with assms have "s' = handleGenerateEdits svc st" by simp
    with that [of "length (imagesToProcess st)"] handleGenerateEdits_last [OF g, of svc]
    show ?thesis by simp
  qed
  then show ?thesis
    using editRunStates_images [OF g k, of svc]
    by (simp add: list_all2_map2 list_all2_same editItemAfter_unselected)
qed

text \<open>
  C7. In every state of a run, and in the state it ends in, every item outside the
  selection is what it was before the run. When the run starts, its first state is the one
  in which every selected item is loading, with its error and its result cleared.
\<close>

theorem run_touches_selection_only:
  "(\<forall>s'\<in>set (editRunStates svc st @ [handleGenerateEdits svc st]).
      list_all2 (\<lambda>old new. image_id old \<notin> selectedImageIds st \<longrightarrow> new = old)
        (images st) (images s'))
   \<and> (imagesToProcess st \<noteq> [] \<and> \<not> isProcessing st \<longrightarrow>
        hd (editRunStates svc st) = editStart st
        \<and> list_all2
            (\<lambda>old new. image_id old \<in> selectedImageIds st \<longrightarrow>
               new = old\<lparr>isLoading := True, error := None, editedUrl := None\<rparr>)
            (images st) (images (hd (editRunStates svc st))))"
proof -
  have "list_all2
            (\<lambda>old new. image_id old \<in> selectedImageIds st \<longrightarrow>
               new = old\<lparr>isLoading := True, error := None, editedUrl := None\<rparr>)
            (images st) (images (editStart st))"
    by (simp add: editStart_def list_all2_map2 list_all2_same)
  moreover have "imagesToProcess st \<noteq> [] \<and> \<not> isProcessing st
      \<longrightarrow> hd (editRunStates svc st) = editStart st"
    by (simp add: editRunStates_def)
  ultimately show ?thesis
    using unselected_kept [of _ svc st] by auto
qed

theorem run_touches_selection_only_example:
  "imagesToProcess oneOfThree \<noteq> [] \<and> \<not> isProcessing oneOfThree
   \<and> list_all
        (\<lambda>s'. list_all2
           (\<lambda>old new. image_id old \<notin> selectedImageIds oneOfThree \<longrightarrow> new = old)
           (images oneOfThree) (images s'))
        (editRunStates failsSecond oneOfThree @ [handleGenerateEdits failsSecond oneOfThree])
   \<and> list_all2
        (\<lambda>old new. image_id old \<in> selectedImageIds oneOfThree \<longrightarrow>
           new = old\<lparr>isLoading := True, error := None, editedUrl := None\<rparr>)
        (images oneOfThree) (images (hd (editRunStates failsSecond oneOfThree)))"
proof -
  have g: "imagesToProcess oneOfThree \<noteq> [] \<and> \<not> isProcessing oneOfThree"
    by (simp add: imagesToProcess_def oneOfThree_def photo_def js_def)
  with run_touches_selection_only [of failsSecond oneOfThree] show ?thesis
    unfolding list_all_iff by blast
qed


lemma errorMessage_nonempty: "errorMessage err \<noteq> []"
  by (simp add: errorMessage_def truthy_def interpolate_def js_def split: option.splits)

lemma imagesToProcess_distinct:
  "distinct (map image_id (images st)) \<Longrightarrow> distinct (map image_id (imagesToProcess st))"
  by (simp add: imagesToProcess_def distinct_map_filter)

lemma selected_in_imagesToProcess:
  "old \<in> set (images st) \<Longrightarrow> image_id old \<in> selectedImageIds st
   \<Longrightarrow> \<exists>k<length (imagesToProcess st). imagesToProcess st ! k = old"
  by (simp add: imagesToProcess_def in_set_conv_nth [symmetric])

text \<open>
  C6. In a run over a batch whose ids are distinct, every selected item is attempted,
  each in its turn, and ends in a terminal state that depends on its own attempt only:
  when the attempt fails the item is the original one with a non-empty error message, no
  result and the loading flag off; when it succeeds the item is the original one with the
  result, no error and the loading flag off. Items outside the selection are unchanged.
  The run ends with the processing flag off and the progress counter at its total, so no
  failure escapes it.
\<close>

theorem failure_is_isolated:
  assumes "imagesToProcess st \<noteq> []" and "\<not> isProcessing st"
    and "distinct (map image_id (images st))"
  shows "\<not> isProcessing (handleGenerateEdits svc st)
     \<and> progress (handleGenerateEdits svc st)
         = \<lparr>current = length (imagesToProcess st), total = length (imagesToProcess st)\<rparr>
     \<and> list_all2
         (\<lambda>old new.
            if image_id old \<in> selectedImageIds st
            then \<exists>k<length (imagesToProcess st). imagesToProcess st ! k = old \<and>
                   (case editAttempt svc (settings st) k old of
                      Inl err \<Rightarrow>
                        errorMessage err \<noteq> [] \<and>
                        new = old\<lparr>isLoading := False, error := Some (errorMessage err),
                                editedUrl := None\<rparr>
                    | Inr url \<Rightarrow>
                        new = old\<lparr>isLoading := False, error := None, editedUrl := Some url\<rparr>)
            else new = old)
         (images st) (images (handleGenerateEdits svc st))"
proof -
  let ?todo = "imagesToProcess st"
  have fin: "handleGenerateEdits svc st = (editRunStates svc st ! length ?todo)\<lparr>isProcessing := False\<rparr>"
    using handleGenerateEdits_last [OF assms(1,2)] .
  have nth: "editRunStates svc st ! length ?todo =
     (editStart st)\<lparr>images :=
         map (editItemAfter svc (settings st) 0 (take (length ?todo) ?todo)) (images (editStart st)),
       progress := \<lparr>current = length ?todo, total = length ?todo\<rparr>\<rparr>"
    using editRunStates_nth [OF assms(1,2), of "length ?todo" svc] by simp
  have imgs: "images (handleGenerateEdits svc st) =
     map (\<lambda>img. editItemAfter svc (settings st) 0 ?todo
            (if image_id img \<in> selectedImageIds st
             then img\<lparr>isLoading := True, error := None, editedUrl := None\<rparr> else img))
       (images st)"
    using editRunStates_images [OF assms(1,2), of "length ?todo" svc] fin by simp
  have item: "if image_id old \<in> selectedImageIds st
            then \<exists>k<length ?todo. ?todo ! k = old \<and>
                   (case editAttempt svc (settings st) k old of
                      Inl err \<Rightarrow>
                        errorMessage err \<noteq> [] \<and>
                        editItemAfter svc (settings st) 0 ?todo
                          (old\<lparr>isLoading := True, error := None, editedUrl := None\<rparr>)
                         = old\<lparr>isLoading := False, error := Some (errorMessage err),
                                editedUrl := None\<rparr>
                    | Inr url \<Rightarrow>
                        editItemAfter svc (settings st) 0 ?todo
                          (old\<lparr>isLoading := True, error := None, editedUrl := None\<rparr>)
                         = old\<lparr>isLoading := False, error := None, editedUrl := Some url\<rparr>)
            else editItemAfter svc (settings st) 0 ?todo old = old"
    if "old \<in> set (images st)" for old
  proof (cases "image_id old \<in> selectedImageIds st")
    case False
    then show ?thesis
      using editItemAfter_unselected [of old st svc "settings st" 0 "length ?todo"] by simp
  next
    case True
    with that obtain k where k: "k < length ?todo" "?todo ! k = old"
      using selected_in_imagesToProcess by blast
    have "editItemAfter svc (settings st) 0 ?todo
            (old\<lparr>isLoading := True, error := None, editedUrl := None\<rparr>)
          = editOutcome (editAttempt svc (settings st) k old)
              (old\<lparr>isLoading := True, error := None, editedUrl := None\<rparr>)"
      using editItemAfter_hit [OF imagesToProcess_distinct [OF assms(3)] k(1),
          of "old\<lparr>isLoading := True, error := None, editedUrl := None\<rparr>" svc "settings st" 0] k(2)
      by simp
    with True k show ?thesis
      by (auto simp: editOutcome_def errorMessage_nonempty split: sum.splits)
  qed
  have "list_all2
         (\<lambda>old new.
            if image_id old \<in> selectedImageIds st
            then \<exists>k<length (imagesToProcess st). imagesToProcess st ! k = old \<and>
                   (case editAttempt svc (settings st) k old of
                      Inl err \<Rightarrow>
                        errorMessage err \<noteq> [] \<and>
                        new = old\<lparr>isLoading := False, error := Some (errorMessage err),
                                editedUrl := None\<rparr>
                    | Inr url \<Rightarrow>
                        new = old\<lparr>isLoading := False, error := None, editedUrl := Some url\<rparr>)
            else new = old)
         (images st) (images (handleGenerateEdits svc st))"
    unfolding imgs list_all2_map2 list_all2_same
    using item by (auto split: if_splits)
  moreover have "\<not> isProcessing (handleGenerateEdits svc st)"
    using fin by simp
  moreover have "progress (handleGenerateEdits svc st)
         = \<lparr>current = length ?todo, total = length ?todo\<rparr>"
    using fin nth by simp
  ultimately show ?thesis by blast
qed

theorem failure_is_isolated_example:
  "imagesToProcess twoSelected \<noteq> [] \<and> \<not> isProcessing twoSelected
   \<and> distinct (map image_id (images twoSelected))
   \<and> editAttempt failsSecond (settings twoSelected) 1 (photo (js ''b.png''))
       = Inl (Error (Some (js ''Quota exceeded.'')))
   \<and> \<not> isProcessing (handleGenerateEdits failsSecond twoSelected)
   \<and> progress (handleGenerateEdits failsSecond twoSelected) = \<lparr>current = 2, total = 2\<rparr>
   \<and> images (handleGenerateEdits failsSecond twoSelected) =
       [(photo (js ''a.png''))\<lparr>editedUrl := Some (js ''data:image/png;base64,QUJD'')\<rparr>,
        (photo (js ''b.png''))\<lparr>error := Some (js ''Quota exceeded.'')\<rparr>]"
proof -
  have h1: "imagesToProcess twoSelected \<noteq> []" and h2: "\<not> isProcessing twoSelected"
    and h3: "distinct (map image_id (images twoSelected))"
    and n: "length (imagesToProcess twoSelected) = 2"
    by (simp_all add: imagesToProcess_def twoSelected_def photo_def js_def)
  have a: "editAttempt failsSecond (settings twoSelected) 1 (photo (js ''b.png''))
       = Inl (Error (Some (js ''Quota exceeded.'')))"
    by (simp add: editAttempt_def editImageWithGemini_def failsSecond_def)
  have i: "images (handleGenerateEdits failsSecond twoSelected) =
       [(photo (js ''a.png''))\<lparr>editedUrl := Some (js ''data:image/png;base64,QUJD'')\<rparr>,
        (photo (js ''b.png''))\<lparr>error := Some (js ''Quota exceeded.'')\<rparr>]"
    by (simp add: handleGenerateEdits_def editRunStates_def imagesToProcess_def
        twoSelected_def photo_def editStart_def editIteration_def editOutcome_def
        editAttempt_def editImageWithGemini_def failsSecond_def imageAnswer_def
        imageParts_def responseParts_def errorMessage_def truthy_def interpolate_def
        defaultSettings_def js_def)
  from failure_is_isolated [OF h1 h2 h3, of failsSecond] h1 h2 h3 n a i show ?thesis
    by simp
qed

section \<open>Properties of a run of handleCompress\<close>

lemma compressOutcome_id [simp]: "c_id (compressOutcome r img) = c_id img"
  by (simp add: compressOutcome_def split: sum.splits)

lemma compressOutcome_not_loading [simp]: "\<not> c_isLoading (compressOutcome r img)"
  by (simp add: compressOutcome_def split: sum.splits)

lemma compressItemAfter_id [simp]: "c_id (compressItemAfter svc st0 i ts img) = c_id img"
  by (induction ts arbitrary: i img) simp_all

lemma compressItemAfter_other:
  "c_id img \<notin> c_id ` set ts \<Longrightarrow> compressItemAfter svc st0 i ts img = img"
  by (induction ts arbitrary: i) auto

lemma compressItemAfter_append:
  "compressItemAfter svc st0 i (xs @ ys) img
     = compressItemAfter svc st0 (i + length xs) ys (compressItemAfter svc st0 i xs img)"
  by (induction xs arbitrary: i img) simp_all

lemma compressLoop_length [simp]: "length (compressLoop svc st0 i ts st) = length ts"
  by (induction ts arbitrary: i st) simp_all

lemma compressLoop_nth:
  "n < length ts \<Longrightarrow>
   compressLoop svc st0 i ts st ! n =
     st\<lparr>c_images := map (compressItemAfter svc st0 i (take (Suc n) ts)) (c_images st),
        c_progress := (c_progress st)\<lparr>current := i + n + 1\<rparr>\<rparr>"
proof (induction ts arbitrary: i st n)
  case Nil
  then show ?case by simp
next
  case (Cons t ts)
  show ?case
  proof (cases n)
    case 0
    then show ?thesis by (simp add: compressIteration_def)
  next
    case (Suc m)
    with Cons.prems have "m < length ts" by simp
    from Cons.IH [OF this, of "i + 1" "compressIteration svc st0 i t st"] Suc show ?thesis
      by (simp add: compressIteration_def comp_def)
  qed
qed

lemma compressRunStates_length:
  "c_images st \<noteq> [] \<Longrightarrow> \<not> c_isProcessing st
   \<Longrightarrow> length (compressRunStates svc st) = Suc (length (c_images st))"
  by (simp add: compressRunStates_def)

lemma compressRunStates_nth:
  assumes "c_images st \<noteq> []" and "\<not> c_isProcessing st" and "k \<le> length (c_images st)"
  shows "compressRunStates svc st ! k =
     (compressStart st)\<lparr>c_images :=
         map (compressItemAfter svc st 0 (take k (c_images st))) (c_images (compressStart st)),
       c_progress := \<lparr>current = k, total = length (c_images st)\<rparr>\<rparr>"
proof (cases k)
  case 0
  with assms show ?thesis
    by (simp add: compressRunStates_def compressStart_def)
next
  case (Suc m)
  with assms have "m < length (c_images st)" by simp
  from compressLoop_nth [OF this, of svc st 0 "compressStart st"] assms Suc show ?thesis
    by (simp add: compressRunStates_def compressStart_def)
qed

lemma compressRunStates_images:
  assumes "c_images st \<noteq> []" and "\<not> c_isProcessing st" and "k \<le> length (c_images st)"
  shows "c_images (compressRunStates svc st ! k) =
     map (\<lambda>img. compressItemAfter svc st 0 (take k (c_images st))
            (img\<lparr>c_isLoading := True, c_error := None, compressedUrl := None\<rparr>))
       (c_images st)"
  using compressRunStates_nth [OF assms, of svc]
  by (simp add: compressStart_def comp_def)

lemma handleCompress_last:
  assumes "c_images st \<noteq> []" and "\<not> c_isProcessing st"
  shows "handleCompress svc st =
           (compressRunStates svc st ! length (c_images st))\<lparr>c_isProcessing := False\<rparr>"
proof -
  have "compressRunStates svc st \<noteq> []"
    using assms by (simp add: compressRunStates_def)
  then have "last (compressRunStates svc st) = compressRunStates svc st ! length (c_images st)"
    using compressRunStates_length [OF assms, of svc] by (simp add: last_conv_nth)
  then show ?thesis
    using assms by (simp add: handleCompress_def)
qed

lemma compressAttempt_nonempty: "compressAttempt svc st i im = Inr url \<Longrightarrow> url \<noteq> []"
  by (auto simp: compressAttempt_def compressImageWithGemini_def
      dest: firstInlineData_nonempty split: sum.splits)


section \<open>Published progress\<close>

lemma editAttempt_nonempty: "editAttempt svc s i im = Inr url \<Longrightarrow> url \<noteq> []"
  by (auto simp: editAttempt_def editImageWithGemini_def
      dest: firstInlineData_nonempty split: sum.splits)

text \<open>The outcome of an attempt turns an item that the start of the run has cleared
  into a succeeded or a failed one.\<close>

lemma editOutcome_terminal:
  assumes "error img = None" and "editedUrl img = None"
  shows "editSucceeded (editOutcome (editAttempt svc s i im) img)
         \<or> editFailed (editOutcome (editAttempt svc s i im) img)"
proof (cases "editAttempt svc s i im")
  case (Inl err)
  with assms show ?thesis
    by (simp add: editOutcome_def editFailed_def truthy_def errorMessage_nonempty)
next
  case (Inr url)
  with assms editAttempt_nonempty [OF Inr] show ?thesis
    by (simp add: editOutcome_def editSucceeded_def truthy_def)
qed

lemma compressOutcome_terminal:
  assumes "c_error img = None" and "compressedUrl img = None"
  shows "compressTerminal (compressOutcome (compressAttempt svc st i im) img)"
proof (cases "compressAttempt svc st i im")
  case (Inl err)
  with assms show ?thesis
    by (simp add: compressOutcome_def compressTerminal_def compressFailed_def truthy_def
        errorMessage_nonempty)
next
  case (Inr url)
  with assms compressAttempt_nonempty [OF Inr] show ?thesis
    by (simp add: compressOutcome_def compressTerminal_def compressSucceeded_def truthy_def)
qed

lemma one_more_after_update:
  assumes "distinct (map idf xs)" and "x0 \<in> set xs" and "\<not> P x0" and "P (g x0)"
  shows "length (filter P (map (\<lambda>x. if idf x = idf x0 then g x else x) xs))
         = Suc (length (filter P xs))"
  using assms(1,2)
proof (induction xs)
  case Nil
  then show ?case by simp
next
  case (Cons x xs)
  show ?case
  proof (cases "x = x0")
    case True
    with Cons.prems have "\<forall>y\<in>set xs. idf y \<noteq> idf x0" by (auto simp: image_iff)
    then have "map (\<lambda>x. if idf x = idf x0 then g x else x) xs = xs"
      by (simp add: map_idI)
    with True assms(3,4) show ?thesis by simp
  next
    case False
    with Cons.prems have "x0 \<in> set xs" and "idf x \<noteq> idf x0" and "distinct (map idf xs)"
      by (auto simp: image_iff)
    with Cons.IH show ?thesis by simp
  qed
qed

lemma progress_steps:
  "sorted (map current (map (\<lambda>k. \<lparr>current = k, total = n\<rparr>) [0..<Suc n]))
   \<and> (\<forall>p\<in>set (map (\<lambda>k. \<lparr>current = k, total = n\<rparr>) [0..<Suc n]). current p \<le> total p)
   \<and> filter (\<lambda>p. current p = total p) (map (\<lambda>k. \<lparr>current = k, total = n\<rparr>) [0..<Suc n])
       = [\<lparr>current = n, total = n\<rparr>]
   \<and> last (map (\<lambda>k. \<lparr>current = k, total = n\<rparr>) [0..<Suc n]) = \<lparr>current = n, total = n\<rparr>"
proof -
  have "map current (map (\<lambda>k. \<lparr>current = k, total = n\<rparr>) [0..<Suc n]) = [0..<Suc n]"
    by (simp add: comp_def del: upt_Suc)
  moreover have "filter (\<lambda>k. k = n) [0..<n] = []"
    by (simp add: filter_empty_conv)
  ultimately show ?thesis
    by (simp add: filter_map comp_def del: upt_Suc) (simp add: filter_empty_conv)
qed

lemma editPublishedProgress_eq:
  assumes "imagesToProcess st \<noteq> []" and "\<not> isProcessing st"
  shows "editPublishedProgress svc st =
           map (\<lambda>k. \<lparr>current = k, total = length (imagesToProcess st)\<rparr>)
             [0..<Suc (length (imagesToProcess st))]"
proof (rule nth_equalityI)
  show "length (editPublishedProgress svc st) =
        length (map (\<lambda>k. \<lparr>current = k, total = length (imagesToProcess st)\<rparr>)
             [0..<Suc (length (imagesToProcess st))])"
    using editRunStates_length [OF assms, of svc] by (simp add: editPublishedProgress_def)
next
  fix k assume "k < length (editPublishedProgress svc st)"
  then have k: "k \<le> length (imagesToProcess st)"
    using editRunStates_length [OF assms, of svc] by (simp add: editPublishedProgress_def)
  then have "k < length (editRunStates svc st)"
    using editRunStates_length [OF assms, of svc] by simp
  then have "editPublishedProgress svc st ! k = progress (editRunStates svc st ! k)"
    by (simp add: editPublishedProgress_def)
  also have "\<dots> = \<lparr>current = k, total = length (imagesToProcess st)\<rparr>"
    using editRunStates_nth [OF assms k, of svc] by simp
  finally show "editPublishedProgress svc st ! k =
      map (\<lambda>k. \<lparr>current = k, total = length (imagesToProcess st)\<rparr>)
             [0..<Suc (length (imagesToProcess st))] ! k"
    using k by (simp del: upt_Suc)
qed

lemma editTerminal_count:
  assumes "imagesToProcess st \<noteq> []" and "\<not> isProcessing st"
    and "distinct (map image_id (images st))"
  shows "k \<le> length (imagesToProcess st)
         \<Longrightarrow> length (filter (editTerminal st) (images (editRunStates svc st ! k))) = k"
proof (induction k)
  case 0
  then show ?case
    using editRunStates_images [OF assms(1,2), of 0 svc]
    by (simp add: filter_empty_conv editTerminal_def editSucceeded_def editFailed_def)
next
  case (Suc k)
  let ?todo = "imagesToProcess st"
  let ?s = "settings st"
  let ?clear = "\<lambda>img. if image_id img \<in> selectedImageIds st
             then img\<lparr>isLoading := True, error := None, editedUrl := None\<rparr> else img"
  let ?xs = "images (editRunStates svc st ! k)"
  from Suc.prems have k: "k < length ?todo" "k \<le> length ?todo" by simp_all
  have xs: "?xs = map (\<lambda>img. editItemAfter svc ?s 0 (take k ?todo) (?clear img)) (images st)"
    using editRunStates_images [OF assms(1,2) k(2), of svc] .
  have tk: "take (Suc k) ?todo = take k ?todo @ [?todo ! k]"
    using k by (simp add: take_Suc_conv_app_nth)
  have mem: "?todo ! k \<in> set (images st)" and sel: "image_id (?todo ! k) \<in> selectedImageIds st"
    using nth_mem [OF k(1)] by (auto simp: imagesToProcess_def)
  let ?x0 = "(?todo ! k)\<lparr>isLoading := True, error := None, editedUrl := None\<rparr>"
  have "image_id (?todo ! k) \<notin> image_id ` set (take k ?todo)"
  proof
    assume "image_id (?todo ! k) \<in> image_id ` set (take k ?todo)"
    then obtain j where "j < k" "image_id (?todo ! j) = image_id (?todo ! k)"
      using k by (auto simp: in_set_conv_nth)
    with imagesToProcess_distinct [OF assms(3)] k show False
      by (simp add: distinct_conv_nth)
  qed
  then have x0: "editItemAfter svc ?s 0 (take k ?todo) (?clear (?todo ! k)) = ?x0"
    using sel by (simp add: editItemAfter_other)
  then have x0_mem: "?x0 \<in> set ?xs"
    unfolding xs using mem by (metis (no_types, lifting) image_eqI set_map)
  have ids: "map image_id ?xs = map image_id (images st)"
    unfolding xs by (simp add: comp_def)
  have next_images: "images (editRunStates svc st ! Suc k) =
      map (\<lambda>x. if image_id x = image_id ?x0
             then editOutcome (editAttempt svc ?s k (?todo ! k)) x else x) ?xs"
    using editRunStates_images [OF assms(1,2) Suc.prems, of svc]
    by (simp add: xs tk editItemAfter_append comp_def min_absorb2 k(2))
  have "length (filter (editTerminal st) (images (editRunStates svc st ! Suc k)))
        = Suc (length (filter (editTerminal st) ?xs))"
    unfolding next_images
  proof (rule one_more_after_update)
    show "distinct (map image_id ?xs)" using ids assms(3) by simp
    show "?x0 \<in> set ?xs" by (rule x0_mem)
    show "\<not> editTerminal st ?x0"
      by (simp add: editTerminal_def editSucceeded_def editFailed_def)
    show "editTerminal st (editOutcome (editAttempt svc ?s k (?todo ! k)) ?x0)"
      using sel editOutcome_terminal [of ?x0 svc ?s k "?todo ! k"]
      by (simp add: editTerminal_def)
  qed
  with Suc.IH k show ?case by simp
qed

lemma compressPublishedProgress_eq:
  assumes "c_images st \<noteq> []" and "\<not> c_isProcessing st"
  shows "compressPublishedProgress svc st =
           map (\<lambda>k. \<lparr>current = k, total = length (c_images st)\<rparr>)
             [0..<Suc (length (c_images st))]"
proof (rule nth_equalityI)
  show "length (compressPublishedProgress svc st) =
        length (map (\<lambda>k. \<lparr>current = k, total = length (c_images st)\<rparr>)
             [0..<Suc (length (c_images st))])"
    using compressRunStates_length [OF assms, of svc] by (simp add: compressPublishedProgress_def)
next
  fix k assume "k < length (compressPublishedProgress svc st)"
  then have k: "k \<le> length (c_images st)"
    using compressRunStates_length [OF assms, of svc] by (simp add: compressPublishedProgress_def)
  then have "k < length (compressRunStates svc st)"
    using compressRunStates_length [OF assms, of svc] by simp
  then have "compressPublishedProgress svc st ! k = c_progress (compressRunStates svc st ! k)"
    by (simp add: compressPublishedProgress_def)
  also have "\<dots> = \<lparr>current = k, total = length (c_images st)\<rparr>"
    using compressRunStates_nth [OF assms k, of svc] by simp
  finally show "compressPublishedProgress svc st ! k =
      map (\<lambda>k. \<lparr>current = k, total = length (c_images st)\<rparr>)
             [0..<Suc (length (c_images st))] ! k"
    using k by (simp del: upt_Suc)
qed

lemma compressTerminal_count:
  assumes "c_images st \<noteq> []" and "\<not> c_isProcessing st"
    and "distinct (map c_id (c_images st))"
  shows "k \<le> length (c_images st)
         \<Longrightarrow> length (filter compressTerminal (c_images (compressRunStates svc st ! k))) = k"
proof (induction k)
  case 0
  then show ?case
    using compressRunStates_images [OF assms(1,2), of 0 svc]
    by (simp add: filter_empty_conv compressTerminal_def compressSucceeded_def
        compressFailed_def)
next
  case (Suc k)
  let ?todo = "c_images st"
  let ?clear = "\<lambda>img. img\<lparr>c_isLoading := True, c_error := None, compressedUrl := None\<rparr>"
  let ?xs = "c_images (compressRunStates svc st ! k)"
  from Suc.prems have k: "k < length ?todo" "k \<le> length ?todo" by simp_all
  have xs: "?xs = map (\<lambda>img. compressItemAfter svc st 0 (take k ?todo) (?clear img)) ?todo"
    using compressRunStates_images [OF assms(1,2) k(2), of svc] .
  have tk: "take (Suc k) ?todo = take k ?todo @ [?todo ! k]"
    using k by (simp add: take_Suc_conv_app_nth)
  have mem: "?todo ! k \<in> set ?todo"
    using nth_mem [OF k(1)] .
  let ?x0 = "?clear (?todo ! k)"
  have "c_id (?todo ! k) \<notin> c_id ` set (take k ?todo)"
  proof
    assume "c_id (?todo ! k) \<in> c_id ` set (take k ?todo)"
    then obtain j where "j < k" "c_id (?todo ! j) = c_id (?todo ! k)"
      using k by (auto simp: in_set_conv_nth)
    with assms(3) k show False
      by (simp add: distinct_conv_nth)
  qed
  then have x0: "compressItemAfter svc st 0 (take k ?todo) (?clear (?todo ! k)) = ?x0"
    by (simp add: compressItemAfter_other)
  then have x0_mem: "?x0 \<in> set ?xs"
    unfolding xs using mem by (metis (no_types, lifting) image_eqI set_map)
  have ids: "map c_id ?xs = map c_id ?todo"
    unfolding xs by (simp add: comp_def)
  have next_images: "c_images (compressRunStates svc st ! Suc k) =
      map (\<lambda>x. if c_id x = c_id ?x0
             then compressOutcome (compressAttempt svc st k (?todo ! k)) x else x) ?xs"
    using compressRunStates_images [OF assms(1,2) Suc.prems, of svc]
    by (simp add: xs tk compressItemAfter_append comp_def min_absorb2 k(2))
  have "length (filter compressTerminal (c_images (compressRunStates svc st ! Suc k)))
        = Suc (length (filter compressTerminal ?xs))"
    unfolding next_images
  proof (rule one_more_after_update)
    show "distinct (map c_id ?xs)" using ids assms(3) by simp
    show "?x0 \<in> set ?xs" by (rule x0_mem)
    show "\<not> compressTerminal ?x0"
      by (simp add: compressTerminal_def compressSucceeded_def compressFailed_def)
    show "compressTerminal (compressOutcome (compressAttempt svc st k (?todo ! k)) ?x0)"
      using compressOutcome_terminal [of ?x0 svc st k "?todo ! k"] by simp
  qed
  with Suc.IH k show ?case by simp
qed

text \<open>
  C8. In a run of handleGenerateEdits, and likewise of handleCompress, the published
  progress values are (0, n), (1, n), ..., (n, n), with n the number of items of the run:
  the current value never decreases and never exceeds the total, and it equals the total
  once, in the last value published. When the ids of the batch are distinct, the current
  value of each published progress is the number of the run's items that have reached a
  terminal state, that is, that are not loading and have either a result and no error
  (succeeded) or an error message and no result (failed); so each increment stands for
  exactly one item reaching a terminal state.
\<close>

theorem progress_counts_finished_items:
  "(imagesToProcess st \<noteq> [] \<and> \<not> isProcessing st \<longrightarrow>
      editPublishedProgress svc st
        = map (\<lambda>k. \<lparr>current = k, total = length (imagesToProcess st)\<rparr>)
            [0..<Suc (length (imagesToProcess st))]
      \<and> sorted (map current (editPublishedProgress svc st))
      \<and> (\<forall>p\<in>set (editPublishedProgress svc st). current p \<le> total p)
      \<and> filter (\<lambda>p. current p = total p) (editPublishedProgress svc st)
          = [last (editPublishedProgress svc st)]
      \<and> (distinct (map image_id (images st)) \<longrightarrow>
           (\<forall>k\<le>length (imagesToProcess st).
              length (filter (editTerminal st) (images (editRunStates svc st ! k)))
                = current (editPublishedProgress svc st ! k))))
   \<and> (c_images cst \<noteq> [] \<and> \<not> c_isProcessing cst \<longrightarrow>
      compressPublishedProgress svc cst
        = map (\<lambda>k. \<lparr>current = k, total = length (c_images cst)\<rparr>)
            [0..<Suc (length (c_images cst))]
      \<and> sorted (map current (compressPublishedProgress svc cst))
      \<and> (\<forall>p\<in>set (compressPublishedProgress svc cst). current p \<le> total p)
      \<and> filter (\<lambda>p. current p = total p) (compressPublishedProgress svc cst)
          = [last (compressPublishedProgress svc cst)]
      \<and> (distinct (map c_id (c_images cst)) \<longrightarrow>
           (\<forall>k\<le>length (c_images cst).
              length (filter compressTerminal
                  (c_images (compressRunStates svc cst ! k)))
                = current (compressPublishedProgress svc cst ! k))))"
proof (intro conjI impI; (elim conjE)?)
  assume g: "imagesToProcess st \<noteq> []" "\<not> isProcessing st"
  let ?n = "length (imagesToProcess st)"
  show eq: "editPublishedProgress svc st = map (\<lambda>k. \<lparr>current = k, total = ?n\<rparr>) [0..<Suc ?n]"
    by (rule editPublishedProgress_eq [OF g])
  show "sorted (map current (editPublishedProgress svc st))"
    unfolding eq using progress_steps [of ?n] by blast
  show "\<forall>p\<in>set (editPublishedProgress svc st). current p \<le> total p"
    unfolding eq using progress_steps [of ?n] by blast
  show "filter (\<lambda>p. current p = total p) (editPublishedProgress svc st)
          = [last (editPublishedProgress svc st)]"
    unfolding eq using progress_steps [of ?n] by presburger
  assume d: "distinct (map image_id (images st))"
  show "\<forall>k\<le>?n. length (filter (editTerminal st) (images (editRunStates svc st ! k)))
                = current (editPublishedProgress svc st ! k)"
    using editTerminal_count [OF g d, of _ svc] by (simp add: eq del: upt_Suc)
next
  assume g: "c_images cst \<noteq> []" "\<not> c_isProcessing cst"
  let ?n = "length (c_images cst)"
  show eq: "compressPublishedProgress svc cst = map (\<lambda>k. \<lparr>current = k, total = ?n\<rparr>) [0..<Suc ?n]"
    by (rule compressPublishedProgress_eq [OF g])
  show "sorted (map current (compressPublishedProgress svc cst))"
    unfolding eq using progress_steps [of ?n] by blast
  show "\<forall>p\<in>set (compressPublishedProgress svc cst). current p \<le> total p"
    unfolding eq using progress_steps [of ?n] by blast
  show "filter (\<lambda>p. current p = total p) (compressPublishedProgress svc cst)
          = [last (compressPublishedProgress svc cst)]"
    unfolding eq using progress_steps [of ?n] by presburger
  assume d: "distinct (map c_id (c_images cst))"
  show "\<forall>k\<le>?n. length (filter compressTerminal
                  (c_images (compressRunStates svc cst ! k)))
                = current (compressPublishedProgress svc cst ! k)"
    using compressTerminal_count [OF g d, of _ svc] by (simp add: eq del: upt_Suc)
qed

theorem progress_counts_finished_items_example:
  "imagesToProcess twoSelected \<noteq> [] \<and> \<not> isProcessing twoSelected
   \<and> distinct (map image_id (images twoSelected))
   \<and> c_images twoLoaded \<noteq> [] \<and> \<not> c_isProcessing twoLoaded
   \<and> distinct (map c_id (c_images twoLoaded))
   \<and> editPublishedProgress failsSecond twoSelected
       = [\<lparr>current = 0, total = 2\<rparr>, \<lparr>current = 1, total = 2\<rparr>, \<lparr>current = 2, total = 2\<rparr>]
   \<and> compressPublishedProgress failsSecond twoLoaded
       = [\<lparr>current = 0, total = 2\<rparr>, \<lparr>current = 1, total = 2\<rparr>, \<lparr>current = 2, total = 2\<rparr>]
   \<and> list_all
        (\<lambda>k. length (filter (editTerminal twoSelected)
                (images (editRunStates failsSecond twoSelected ! k)))
              = current (editPublishedProgress failsSecond twoSelected ! k))
        [0, 1, 2]
   \<and> list_all
        (\<lambda>k. length (filter compressTerminal
                (c_images (compressRunStates failsSecond twoLoaded ! k)))
              = current (compressPublishedProgress failsSecond twoLoaded ! k))
        [0, 1, 2]"
proof -
  have e: "imagesToProcess twoSelected \<noteq> [] \<and> \<not> isProcessing twoSelected"
    and de: "distinct (map image_id (images twoSelected))"
    and ne: "length (imagesToProcess twoSelected) = 2"
    by (simp_all add: imagesToProcess_def twoSelected_def photo_def js_def)
  have c: "c_images twoLoaded \<noteq> [] \<and> \<not> c_isProcessing twoLoaded"
    and dc: "distinct (map c_id (c_images twoLoaded))"
    and nc: "length (c_images twoLoaded) = 2"
    by (simp_all add: twoLoaded_def handleImageSelect_def handleReset_def newImage_def
        upload_def initialCompressor_def js_def)
  have u: "[0..<Suc 2] = [0, 1, 2]"
    by (simp add: upt_rec)
  from progress_counts_finished_items [of twoSelected failsSecond twoLoaded] e de ne c dc nc u
  show ?thesis
    by simp
qed

section \<open>The auto-compress effect\<close>

lemma compressOutcome_attempted:
  "truthy (compressedUrl (compressOutcome (compressAttempt svc st i im) img))
   \<or> truthy (c_error (compressOutcome (compressAttempt svc st i im) img))"
  by (auto simp: compressOutcome_def truthy_def errorMessage_nonempty
      dest: compressAttempt_nonempty split: sum.splits)

lemma compressItemAfter_attempted:
  "\<not> c_isLoading img \<and> (truthy (compressedUrl img) \<or> truthy (c_error img))
   \<Longrightarrow> \<not> c_isLoading (compressItemAfter svc st i ts img)
       \<and> (truthy (compressedUrl (compressItemAfter svc st i ts img))
          \<or> truthy (c_error (compressItemAfter svc st i ts img)))"
proof (induction ts arbitrary: i img)
  case Nil
  then show ?case by simp
next
  case (Cons t ts)
  show ?case
    using Cons.prems compressOutcome_attempted [of svc st i t img]
    by (auto intro!: Cons.IH [THEN conjunct1] Cons.IH [THEN conjunct2] simp del: not_None_eq)
qed

lemma handleCompress_first_attempted:
  assumes "c_images st \<noteq> []" and "\<not> c_isProcessing st"
  shows "\<not> hasUnprocessedImages (handleCompress svc st)"
proof -
  from assms(1) obtain im rest where ims: "c_images st = im # rest"
    by (cases "c_images st") auto
  let ?start = "im\<lparr>c_isLoading := True, c_error := None, compressedUrl := None\<rparr>"
  let ?first = "compressItemAfter svc st 0 (im # rest) ?start"
  have "c_images (handleCompress svc st) =
     map (\<lambda>img. compressItemAfter svc st 0 (c_images st)
            (img\<lparr>c_isLoading := True, c_error := None, compressedUrl := None\<rparr>)) (c_images st)"
    using handleCompress_last [OF assms, of svc]
      compressRunStates_images [OF assms, of "length (c_images st)" svc] by simp
  then have hd: "c_images (handleCompress svc st) = ?first # map (\<lambda>img. compressItemAfter svc st 0 (im # rest)
            (img\<lparr>c_isLoading := True, c_error := None, compressedUrl := None\<rparr>)) rest"
    by (simp add: ims)
  have "?first = compressItemAfter svc st 1 rest (compressOutcome (compressAttempt svc st 0 im) ?start)"
    by simp
  moreover have "\<not> c_isLoading (compressOutcome (compressAttempt svc st 0 im) ?start)
     \<and> (truthy (compressedUrl (compressOutcome (compressAttempt svc st 0 im) ?start))
        \<or> truthy (c_error (compressOutcome (compressAttempt svc st 0 im) ?start)))"
    using compressOutcome_attempted [of svc st 0 im ?start] by simp
  ultimately have "\<not> c_isLoading ?first \<and> (truthy (compressedUrl ?first) \<or> truthy (c_error ?first))"
    using compressItemAfter_attempted by presburger
  then show ?thesis
    unfolding hasUnprocessedImages_def hd by auto
qed

lemma compressRunStates_processing:
  assumes "s' \<in> set (compressRunStates svc st)"
  shows "c_isProcessing s'"
proof -
  from assms have g: "c_images st \<noteq> []" "\<not> c_isProcessing st"
    by (auto simp: compressRunStates_def split: if_splits)
  from assms obtain k where "k < length (compressRunStates svc st)" "compressRunStates svc st ! k = s'"
    by (auto simp: in_set_conv_nth)
  then show ?thesis
    using compressRunStates_nth [OF g, of k svc] compressRunStates_length [OF g, of svc]
    by (auto simp: compressStart_def)
qed

lemma handleCompress_no_unprocessed:
  assumes "\<not> hasUnprocessedImages st"
  shows "\<not> hasUnprocessedImages (handleCompress svc st)"
proof (cases "c_images st \<noteq> [] \<and> \<not> c_isProcessing st")
  case True
  then show ?thesis
    using handleCompress_first_attempted [of st svc] by simp
next
  case False
  then have "handleCompress svc st = st"
    by (auto simp: handleCompress_def)
  with assms show ?thesis by simp
qed

lemma handleEvent_no_unprocessed:
  assumes "\<not> isImageSelect ev" and "\<not> hasUnprocessedImages st"
  shows "\<not> hasUnprocessedImages (handleEvent svc ev st)"
proof (cases ev)
  case CompressClicked
  with assms show ?thesis
    by (simp add: handleCompress_no_unprocessed)
qed (insert assms, auto simp: hasUnprocessedImages_def handleReset_def)

lemma handleEvent_fresh:
  assumes "\<not> isImageSelect ev" and "list_all unattempted (c_images st)"
  shows "list_all unattempted (c_images (handleEvent svc ev st))
       \<or> \<not> hasUnprocessedImages (handleEvent svc ev st)"
proof (cases ev)
  case CompressClicked
  show ?thesis
  proof (cases "c_images st \<noteq> [] \<and> \<not> c_isProcessing st")
    case True
    then show ?thesis
      using handleCompress_first_attempted [of st svc] CompressClicked by simp
  next
    case False
    then have "handleCompress svc st = st"
      by (auto simp: handleCompress_def)
    with assms CompressClicked show ?thesis by simp
  qed
qed (insert assms, auto simp: handleReset_def hasUnprocessedImages_def)

lemma autoCompressEffect_no_unprocessed:
  "\<not> hasUnprocessedImages st \<Longrightarrow> \<not> hasUnprocessedImages (autoCompressEffect svc st)"
  by (simp add: autoCompressEffect_def autoCompressFires_def)

lemma autoRuns_none:
  "\<forall>(svc, ev)\<in>set evs. \<not> isImageSelect ev \<Longrightarrow> \<not> hasUnprocessedImages st
   \<Longrightarrow> autoRuns evs st = []"
proof (induction evs arbitrary: st)
  case Nil
  then show ?case by simp
next
  case (Cons e evs)
  obtain svc ev where e: "e = (svc, ev)" by (cases e)
  with Cons.prems have ev: "\<not> isImageSelect ev" and rest: "\<forall>(svc, ev)\<in>set evs. \<not> isImageSelect ev"
    by auto
  have h: "\<not> hasUnprocessedImages (handleEvent svc ev st)"
    using handleEvent_no_unprocessed [OF ev Cons.prems(2)] .
  then have "\<not> autoCompressFires (handleEvent svc ev st)"
    by (simp add: autoCompressFires_def)
  moreover have "autoRuns evs (autoCompressEffect svc (handleEvent svc ev st)) = []"
    using Cons.IH [OF rest autoCompressEffect_no_unprocessed [OF h]] .
  ultimately show ?case
    by (simp add: e)
qed

lemma autoCompressFires_guard:
  "autoCompressFires st \<Longrightarrow> c_images st \<noteq> [] \<and> \<not> c_isProcessing st \<and> autoCompress st"
  by (auto simp: autoCompressFires_def hasUnprocessedImages_def)

lemma autoRuns_fresh:
  "\<forall>(svc, ev)\<in>set evs. \<not> isImageSelect ev
   \<Longrightarrow> list_all unattempted (c_images st) \<or> \<not> hasUnprocessedImages st
   \<Longrightarrow> length (autoRuns evs st) \<le> 1
       \<and> (\<forall>s\<in>set (autoRuns evs st).
            autoCompress s \<and> \<not> c_isProcessing s \<and> c_images s \<noteq> []
            \<and> list_all unattempted (c_images s))"
proof (induction evs arbitrary: st)
  case Nil
  then show ?case by simp
next
  case (Cons e evs)
  obtain svc ev where e: "e = (svc, ev)" by (cases e)
  with Cons.prems have ev: "\<not> isImageSelect ev" and rest: "\<forall>(svc, ev)\<in>set evs. \<not> isImageSelect ev"
    by auto
  let ?st' = "handleEvent svc ev st"
  have inv: "list_all unattempted (c_images ?st') \<or> \<not> hasUnprocessedImages ?st'"
    using Cons.prems(2) handleEvent_fresh [OF ev, of st svc] handleEvent_no_unprocessed [OF ev, of st svc]
    by blast
  show ?case
  proof (cases "autoCompressFires ?st'")
    case True
    then have g: "c_images ?st' \<noteq> []" "\<not> c_isProcessing ?st'" "autoCompress ?st'"
      using autoCompressFires_guard by blast+
    from True inv have fresh: "list_all unattempted (c_images ?st')"
      by (auto simp: autoCompressFires_def)
    have "\<not> hasUnprocessedImages (autoCompressEffect svc ?st')"
      using True handleCompress_first_attempted [OF g(1,2), of svc]
      by (simp add: autoCompressEffect_def)
    then have "autoRuns evs (autoCompressEffect svc ?st') = []"
      using autoRuns_none [OF rest] by blast
    with True g fresh show ?thesis
      by (simp add: e)
  next
    case False
    then have "autoCompressEffect svc ?st' = ?st'"
      by (simp add: autoCompressEffect_def)
    with False Cons.IH [OF rest inv] show ?thesis
      by (simp add: e)
  qed
qed

lemma handleImageSelect_fresh: "list_all unattempted (c_images (handleImageSelect files st))"
  by (simp add: handleImageSelect_def list_all_iff newImage_def unattempted_def)

text \<open>
  C9. After a batch is loaded, and until the next batch is loaded, the effect calls
  handleCompress at most once; it does so only in a state in which auto-compress is on, no
  run is active and nothing has been attempted on any item of the batch. In every state
  of a run the processing flag is on and the condition of the effect is false, and it is
  false again in the state in which a run ends, whether its items succeeded or failed.
\<close>

theorem auto_compress_once_per_batch:
  assumes "\<forall>(svc, ev)\<in>set evs. \<not> isImageSelect ev"
  shows "length (autoRuns ((svc0, ImageSelect files) # evs) st) \<le> 1
     \<and> (\<forall>s\<in>set (autoRuns ((svc0, ImageSelect files) # evs) st).
          autoCompress s \<and> \<not> c_isProcessing s \<and> c_images s \<noteq> []
          \<and> list_all unattempted (c_images s))
     \<and> (\<forall>s'\<in>set (compressRunStates svc s). c_isProcessing s' \<and> \<not> autoCompressFires s')
     \<and> (c_images s \<noteq> [] \<and> \<not> c_isProcessing s \<longrightarrow> \<not> autoCompressFires (handleCompress svc s))"
proof -
  let ?st' = "handleImageSelect files st"
  have fresh: "list_all unattempted (c_images ?st')"
    by (rule handleImageSelect_fresh)
  have runs: "length (autoRuns ((svc0, ImageSelect files) # evs) st) \<le> 1
     \<and> (\<forall>s\<in>set (autoRuns ((svc0, ImageSelect files) # evs) st).
          autoCompress s \<and> \<not> c_isProcessing s \<and> c_images s \<noteq> []
          \<and> list_all unattempted (c_images s))"
  proof (cases "autoCompressFires ?st'")
    case True
    then have g: "c_images ?st' \<noteq> []" "\<not> c_isProcessing ?st'" "autoCompress ?st'"
      using autoCompressFires_guard by blast+
    have "\<not> hasUnprocessedImages (autoCompressEffect svc0 ?st')"
      using True handleCompress_first_attempted [OF g(1,2), of svc0]
      by (simp add: autoCompressEffect_def)
    then have "autoRuns evs (autoCompressEffect svc0 ?st') = []"
      using autoRuns_none [OF assms] by blast
    with True g fresh show ?thesis
      by simp
  next
    case False
    then have "autoCompressEffect svc0 ?st' = ?st'"
      by (simp add: autoCompressEffect_def)
    with False autoRuns_fresh [OF assms, of ?st'] fresh show ?thesis
      by simp
  qed
  have during: "\<forall>s'\<in>set (compressRunStates svc s). c_isProcessing s' \<and> \<not> autoCompressFires s'"
    using compressRunStates_processing by (auto simp: autoCompressFires_def)
  have after: "c_images s \<noteq> [] \<and> \<not> c_isProcessing s \<longrightarrow> \<not> autoCompressFires (handleCompress svc s)"
    using handleCompress_first_attempted [of s svc] by (auto simp: autoCompressFires_def)
  from runs during after show ?thesis by blast
qed

theorem auto_compress_once_per_batch_example:
  "list_all (\<lambda>(svc, ev). \<not> isImageSelect ev) laterEvents
   \<and> length (autoRuns
        ((failsSecond, ImageSelect [upload (js ''a.png''), upload (js ''b.png'')])
         # laterEvents) (initialCompressor\<lparr>autoCompress := True\<rparr>)) = 1
   \<and> list_all
        (\<lambda>s. autoCompress s \<and> \<not> c_isProcessing s \<and> c_images s \<noteq> []
           \<and> list_all unattempted (c_images s))
        (autoRuns
          ((failsSecond, ImageSelect [upload (js ''a.png''), upload (js ''b.png'')])
           # laterEvents) (initialCompressor\<lparr>autoCompress := True\<rparr>))
   \<and> list_all (\<lambda>s'. c_isProcessing s' \<and> \<not> autoCompressFires s')
        (compressRunStates failsSecond twoLoaded)
   \<and> \<not> autoCompressFires (handleCompress failsSecond twoLoaded)"
proof -
  have h: "\<forall>(svc, ev)\<in>set laterEvents. \<not> isImageSelect ev"
    by (simp add: laterEvents_def)
  have g: "c_images twoLoaded \<noteq> [] \<and> \<not> c_isProcessing twoLoaded"
    by (simp add: twoLoaded_def handleImageSelect_def handleReset_def initialCompressor_def)
  have n: "length (autoRuns
        ((failsSecond, ImageSelect [upload (js ''a.png''), upload (js ''b.png'')])
         # laterEvents) (initialCompressor\<lparr>autoCompress := True\<rparr>)) = 1"
    by (simp add: laterEvents_def initialCompressor_def upload_def handleImageSelect_def
        handleReset_def newImage_def autoCompressFires_def hasUnprocessedImages_def
        truthy_def autoCompressEffect_def handleCompress_def compressRunStates_def
        compressStart_def compressIteration_def compressOutcome_def compressAttempt_def
        fileToBase64_def compressImageWithGemini_def failsSecond_def imageAnswer_def
        imageParts_def responseParts_def errorMessage_def interpolate_def js_def
        show_int_def)
  from auto_compress_once_per_batch
    [OF h, of failsSecond "[upload (js ''a.png''), upload (js ''b.png'')]"
      "initialCompressor\<lparr>autoCompress := True\<rparr>" failsSecond twoLoaded] h g n
  show ?thesis
    unfolding list_all_iff by blast
qed

end
